theory Spec2Isabelle
  imports Complex_Main "HOL-Library.AList" "HOL-Library.Sublist"
begin

section \<open>JavaScript values used by the dashboard pages\<close>

text \<open>
  The four dashboard pages (overview, feature, onboarding, users) fetch rows of the table
  \<^verbatim>\<open>analytics_events\<close> and aggregate them inside their \<^verbatim>\<open>fetchData\<close> closures.
  The aggregation code is modelled here block by block; every definition names the
  source lines it embeds.

  Numbers. The counts the pages divide are set sizes and array lengths, so the
  quotients are rationals; they are computed here exactly (type \<open>rat\<close>) where the source
  uses IEEE doubles. A division by zero is \<^emph>\<open>not\<close> HOL's \<open>x / 0 = 0\<close>: \<open>jsdiv\<close> returns
  \<open>NaN\<close> or an infinity as JavaScript does, so that an unguarded division shows.
  An array holds fewer than \<open>2\<^sup>3\<^sup>2\<close> records, so no sum, product or quotient of counts
  comes near the end of the double range.

  The savings a record carries are different: they are doubles read from JSON, of any
  magnitude, and the pages add them up. For them \<open>jsplus\<close> is the addition of doubles
  with its overflow: a sum whose magnitude reaches \<open>2\<^sup>1\<^sup>0\<^sup>2\<^sup>4 - 2\<^sup>9\<^sup>7\<^sup>0\<close>, which rounds
  away from the largest finite double, is an infinity, and infinities of opposite sign
  add up to \<open>NaN\<close>. A sum inside the range is kept exact (the rounding of the mantissa
  is not modelled).
\<close>

datatype error = TypeError | RangeError

datatype jsnum = Num rat | NaN | PosInfinity | NegInfinity

definition jsdiv :: "rat \<Rightarrow> rat \<Rightarrow> jsnum" where
  \<comment> \<open>\<^verbatim>\<open>a / b\<close> on finite numbers\<close>
  "jsdiv a b =
     (if b \<noteq> 0 then Num (a / b)
      else if a = 0 then NaN
      else if 0 < a then PosInfinity else NegInfinity)"

fun jsmul :: "jsnum \<Rightarrow> rat \<Rightarrow> jsnum" where
  \<comment> \<open>\<^verbatim>\<open>x * k\<close> for a finite constant \<open>k\<close> (the pages multiply by 100 and by 10)\<close>
  "jsmul (Num a) k = Num (a * k)"
| "jsmul NaN k = NaN"
| "jsmul PosInfinity k = (if 0 < k then PosInfinity else if k < 0 then NegInfinity else NaN)"
| "jsmul NegInfinity k = (if 0 < k then NegInfinity else if k < 0 then PosInfinity else NaN)"

fun Math_round :: "jsnum \<Rightarrow> jsnum" where
  \<comment> \<open>\<^verbatim>\<open>Math.round\<close>: the nearest integer, a tie going up; \<open>NaN\<close> and the infinities stay\<close>
  "Math_round (Num a) = Num (of_int \<lfloor>a + 1 / 2\<rfloor>)"
| "Math_round x = x"

definition overflow :: "rat \<Rightarrow> jsnum" where
  \<comment> \<open>the double for a result \<open>r\<close>: an infinity from \<open>2\<^sup>1\<^sup>0\<^sup>2\<^sup>4 - 2\<^sup>9\<^sup>7\<^sup>0\<close> on\<close>
  "overflow r =
     (if 2 ^ 1024 - 2 ^ 970 \<le> r then PosInfinity
      else if r \<le> - (2 ^ 1024 - 2 ^ 970) then NegInfinity
      else Num r)"

fun jsplus :: "jsnum \<Rightarrow> jsnum \<Rightarrow> jsnum" where
  \<comment> \<open>\<^verbatim>\<open>x + y\<close> on doubles\<close>
  "jsplus (Num a) (Num b) = overflow (a + b)"
| "jsplus NaN y = NaN"
| "jsplus x NaN = NaN"
| "jsplus PosInfinity NegInfinity = NaN"
| "jsplus NegInfinity PosInfinity = NaN"
| "jsplus PosInfinity y = PosInfinity"
| "jsplus x PosInfinity = PosInfinity"
| "jsplus NegInfinity y = NegInfinity"
| "jsplus x NegInfinity = NegInfinity"

fun truthy :: "jsnum \<Rightarrow> bool" where
  \<comment> \<open>a number in a condition: 0 and \<open>NaN\<close> are falsy\<close>
  "truthy (Num a) = (a \<noteq> 0)"
| "truthy NaN = False"
| "truthy x = True"


text \<open>
  A JavaScript \<^verbatim>\<open>Set\<close> keeps its elements in insertion order without repetition; it is a
  list here, \<^verbatim>\<open>add\<close> is \<open>set_add\<close> and \<^verbatim>\<open>size\<close> is \<open>length\<close>. A \<^verbatim>\<open>Map\<close> is an
  association list in insertion order: \<^verbatim>\<open>get\<close> is \<open>map_of\<close>, \<^verbatim>\<open>set\<close> is
  \<open>AList.update\<close> (in place for a key that is present, at the end for a new one).
\<close>

definition set_add :: "'a \<Rightarrow> 'a list \<Rightarrow> 'a list" where
  "set_add x xs = (if x \<in> set xs then xs else xs @ [x])"

definition new_Set :: "'a list \<Rightarrow> 'a list" where
  \<comment> \<open>\<^verbatim>\<open>new Set(array)\<close>\<close>
  "new_Set xs = foldl (\<lambda>s x. set_add x s) [] xs"

subsection \<open>Decimal rendering\<close>

definition digit_char :: "nat \<Rightarrow> char" where
  "digit_char d = ''0123456789'' ! (d mod 10)"

fun show_nat :: "nat \<Rightarrow> string" where
  "show_nat n = (if n < 10 then [digit_char n] else show_nat (n div 10) @ [digit_char n])"

declare show_nat.simps [simp del]

definition toFixed0 :: "rat \<Rightarrow> string" where
  \<comment> \<open>\<^verbatim>\<open>x.toFixed(0)\<close>: the sign, then the nearest integer of the magnitude (the larger one
      at a tie); \<^verbatim>\<open>(-0.4).toFixed(0)\<close> is \<^verbatim>\<open>"-0"\<close>\<close>
  "toFixed0 x =
     (if x < 0 then ''-'' @ show_nat (nat \<lfloor>- x + 1 / 2\<rfloor>)
      else show_nat (nat \<lfloor>x + 1 / 2\<rfloor>))"

section \<open>Events\<close>

text \<open>
  A row of \<^verbatim>\<open>analytics_events\<close> as the pages select it. The store returns \<^verbatim>\<open>null\<close> for
  an empty column, which is \<open>None\<close>. \<^verbatim>\<open>props\<close> is an open JSON object; the pages read four
  of its keys, which are the fields of \<open>props\<close> (a key that is absent is \<open>None\<close>).
  \<^verbatim>\<open>savings_cents\<close> is a JSON number, which the page receives as a double: a finite one,
  or an infinity for a literal beyond the double range such as \<^verbatim>\<open>1e999\<close>.
\<close>

record props =
  savings_cents :: "jsnum option"
  is_new_user :: "bool option"
  is_returning_device :: "bool option"
  list_key :: "string option"

record event =
  received_at :: "string option"
  firebase_uid :: "string option"
  event_name :: string
  platform :: "string option"
  event_props :: "props option"

section \<open>Onboarding funnel (onboarding page)\<close>

record step_def =
  st_event :: string
  st_label :: string
  st_shortName :: string
  st_color :: string

record step_data =
  sd_count :: nat
  sd_users :: "string option list"

record FunnelStep =
  fs_name :: string
  fs_shortName :: string
  fs_value :: nat
  fs_users :: nat
  fs_fill :: string
  dropoff :: int
  dropoffPct :: string


definition initCounts :: "step_def list \<Rightarrow> (string \<times> step_data) list" where
  \<comment> \<open>onboarding page, lines 98-101: one empty entry per step\<close>
  "initCounts steps =
     foldl (\<lambda>m step. AList.update (st_event step) \<lparr>sd_count = 0, sd_users = []\<rparr> m) [] steps"

definition countEvent :: "(string \<times> step_data) list \<Rightarrow> event \<Rightarrow> (string \<times> step_data) list" where
  \<comment> \<open>lines 106-111: an event whose name is a step's is counted, any other is skipped\<close>
  "countEvent ec e =
     (case map_of ec (event_name e) of
        None \<Rightarrow> ec
      | Some step \<Rightarrow>
          AList.update (event_name e)
            \<lparr>sd_count = Suc (sd_count step),
             sd_users = set_add (firebase_uid e) (sd_users step)\<rparr> ec)"

definition eventCounts :: "step_def list \<Rightarrow> event list \<Rightarrow> (string \<times> step_data) list" where
  "eventCounts steps events = foldl countEvent (initCounts steps) events"

definition get_counts :: "(string \<times> step_data) list \<Rightarrow> string \<Rightarrow> error + step_data" where
  \<comment> \<open>\<^verbatim>\<open>eventCounts.get(k)!\<close> followed by a field access: a missing key throws\<close>
  "get_counts ec k = (case map_of ec k of None \<Rightarrow> Inl TypeError | Some d \<Rightarrow> Inr d)"

definition funnelStep :: "step_def list \<Rightarrow> (string \<times> step_data) list \<Rightarrow> nat \<Rightarrow> error + FunnelStep" where
  \<comment> \<open>lines 127-144, the callback of \<^verbatim>\<open>ONBOARDING_STEPS.map\<close> at \<open>index\<close>\<close>
  "funnelStep steps ec index =
     (let step = steps ! index in
      case get_counts ec (st_event step) of
        Inl err \<Rightarrow> Inl err
      | Inr data \<Rightarrow>
         (if 0 < index then
            (case get_counts ec (st_event (steps ! (index - 1))) of
               Inl err \<Rightarrow> Inl err
             | Inr prevData \<Rightarrow>
                 (let d = int (length (sd_users prevData)) - int (length (sd_users data)) in
                  Inr \<lparr>fs_name = st_label step, fs_shortName = st_shortName step,
                       fs_value = sd_count data, fs_users = length (sd_users data),
                       fs_fill = st_color step, dropoff = d,
                       dropoffPct =
                         (if 0 < length (sd_users prevData)
                          then toFixed0 (of_int d / of_nat (length (sd_users prevData)) * 100) @ ''%''
                          else '''')\<rparr>))
          else
            Inr \<lparr>fs_name = st_label step, fs_shortName = st_shortName step,
                 fs_value = sd_count data, fs_users = length (sd_users data),
                 fs_fill = st_color step, dropoff = 0, dropoffPct = ''''\<rparr>))"

fun collect :: "(error + 'a) list \<Rightarrow> error + 'a list" where
  \<comment> \<open>the first exception thrown inside a \<^verbatim>\<open>map\<close> callback ends the whole \<^verbatim>\<open>map\<close>\<close>
  "collect [] = Inr []"
| "collect (Inl err # rs) = Inl err"
| "collect (Inr x # rs) = (case collect rs of Inl err \<Rightarrow> Inl err | Inr xs \<Rightarrow> Inr (x # xs))"

definition buildFunnel :: "step_def list \<Rightarrow> event list \<Rightarrow> error + FunnelStep list" where
  "buildFunnel steps events =
     collect (map (funnelStep steps (eventCounts steps events)) [0..<length steps])"

text \<open>
  The specification's reading of a step's unique-user count: the number of distinct
  user identifiers among the events that carry the step's event name.
\<close>

definition usersAtStep :: "step_def list \<Rightarrow> event list \<Rightarrow> nat \<Rightarrow> nat" where
  "usersAtStep steps events i =
     card (firebase_uid ` {e \<in> set events. event_name e = st_event (steps ! i)})"

definition named :: "string \<Rightarrow> event list \<Rightarrow> event list" where
  "named k events = filter (\<lambda>e. event_name e = k) events"

definition stepOf :: "step_def list \<Rightarrow> event list \<Rightarrow> nat \<Rightarrow> FunnelStep" where
  \<comment> \<open>closed form of the funnel entry at \<open>i\<close>, used in the proofs\<close>
  "stepOf steps events i =
     (let step = steps ! i; u = usersAtStep steps events i; p = usersAtStep steps events (i - 1)
      in \<lparr>fs_name = st_label step, fs_shortName = st_shortName step,
          fs_value = length (named (st_event step) events), fs_users = u,
          fs_fill = st_color step,
          dropoff = (if 0 < i then int p - int u else 0),
          dropoffPct = (if 0 < i \<and> 0 < p
             then toFixed0 (of_int (int p - int u) / of_nat p * 100) @ ''%'' else '''')\<rparr>)"

text \<open>The end-to-end scenario of the specification: user A starts and completes, user B only starts.\<close>

definition ev :: "string \<Rightarrow> string \<Rightarrow> string \<Rightarrow> event" where
  "ev t u n = \<lparr>received_at = Some t, firebase_uid = Some u, event_name = n,
              platform = None, event_props = None\<rparr>"

definition scenario_steps :: "step_def list" where
  "scenario_steps =
    [\<lparr>st_event = ''onboarding_started'', st_label = ''Onboarding Started'', st_shortName = ''Started'', st_color = ''#059669''\<rparr>,
     \<lparr>st_event = ''onboarding_completed'', st_label = ''Completed'', st_shortName = ''Done'', st_color = ''#DB2777''\<rparr>]"

definition scenario_events :: "event list" where
  "scenario_events =
    [ev ''2024-03-01T09:00:00+00:00'' ''A'' ''onboarding_started'',
     ev ''2024-03-01T09:05:00+00:00'' ''A'' ''onboarding_completed'',
     ev ''2024-03-02T10:00:00+00:00'' ''B'' ''onboarding_started'']"

subsection \<open>Biggest drop-off\<close>

text \<open>
  Onboarding page, lines 148-159. The two variables of the scan are the fields
  \<open>biggestDropoff\<close> and \<open>biggestDropoffPct\<close>. \<open>biggestIndex\<close> is a ghost field: it is
  assigned where the label is assigned and records the index of the step that ends the
  chosen transition, since two transitions may render the same label.
\<close>

record biggest =
  biggestDropoff :: string
  biggestDropoffPct :: rat
  biggestIndex :: "nat option"

definition arrow :: string where
  \<comment> \<open>the character U+2192 of the label, as its three UTF-8 bytes\<close>
  "arrow = [CHR 0xE2, CHR 0x86, CHR 0x92]"

definition transitionLabel :: "FunnelStep list \<Rightarrow> nat \<Rightarrow> string" where
  "transitionLabel funnel i =
     fs_shortName (funnel ! (i - 1)) @ '' '' @ arrow @ '' '' @ fs_shortName (funnel ! i)"

definition scanStep :: "FunnelStep list \<Rightarrow> biggest \<Rightarrow> nat \<Rightarrow> biggest" where
  \<comment> \<open>the callback of \<^verbatim>\<open>funnel.forEach\<close>; \<^verbatim>\<open>step.dropoff\<close> as a condition is \<open>dropoff step \<noteq> 0\<close>\<close>
  "scanStep funnel b i =
     (let step = funnel ! i in
      if 0 < i \<and> dropoff step \<noteq> 0 \<and> 0 < fs_users (funnel ! (i - 1)) then
        (let pct = of_int (dropoff step) / of_nat (fs_users (funnel ! (i - 1))) * 100 in
         if biggestDropoffPct b < pct
         then \<lparr>biggestDropoff = transitionLabel funnel i, biggestDropoffPct = pct,
               biggestIndex = Some i\<rparr>
         else b)
      else b)"

definition findBiggestDropoff :: "FunnelStep list \<Rightarrow> biggest" where
  "findBiggestDropoff funnel =
     foldl (scanStep funnel) \<lparr>biggestDropoff = '''', biggestDropoffPct = 0, biggestIndex = None\<rparr>
       [0..<length funnel]"

text \<open>
  A transition is a step index \<open>i > 0\<close> whose previous step has a user, so that its
  percentage is defined; \<open>pctAt\<close> is that percentage.
\<close>

definition transition :: "FunnelStep list \<Rightarrow> nat \<Rightarrow> bool" where
  "transition funnel i \<longleftrightarrow> 0 < i \<and> i < length funnel \<and> 0 < fs_users (funnel ! (i - 1))"

definition pctAt :: "FunnelStep list \<Rightarrow> nat \<Rightarrow> rat" where
  "pctAt funnel i = of_int (dropoff (funnel ! i)) / of_nat (fs_users (funnel ! (i - 1))) * 100"

text \<open>The state of the scan after the first \<open>n\<close> steps, and what holds of it.\<close>

definition scanned :: "FunnelStep list \<Rightarrow> nat \<Rightarrow> biggest" where
  "scanned funnel n =
     foldl (scanStep funnel) \<lparr>biggestDropoff = '''', biggestDropoffPct = 0, biggestIndex = None\<rparr> [0..<n]"

definition scan_inv :: "FunnelStep list \<Rightarrow> nat \<Rightarrow> biggest \<Rightarrow> bool" where
  "scan_inv funnel n b \<longleftrightarrow>
     (\<forall>i < n. transition funnel i \<longrightarrow> pctAt funnel i \<le> biggestDropoffPct b) \<and>
     (case biggestIndex b of
        None \<Rightarrow> biggestDropoffPct b = 0 \<and> biggestDropoff b = ''''
      | Some j \<Rightarrow> j < n \<and> transition funnel j \<and> 0 < pctAt funnel j \<and>
                  biggestDropoffPct b = pctAt funnel j \<and>
                  biggestDropoff b = transitionLabel funnel j \<and>
                  (\<forall>i < j. transition funnel i \<longrightarrow> pctAt funnel i < pctAt funnel j))"

text \<open>
  The funnel of the specification's example, with user counts 100, 80, 80 and 50, and the
  funnel of one user who starts and completes.
\<close>

definition funnel_of_counts :: "FunnelStep list" where
  "funnel_of_counts =
    [\<lparr>fs_name = ''App Launch'', fs_shortName = ''Launch'', fs_value = 100, fs_users = 100,
      fs_fill = ''#2563EB'', dropoff = 0, dropoffPct = ''''\<rparr>,
     \<lparr>fs_name = ''Splash Loaded'', fs_shortName = ''Splash'', fs_value = 80, fs_users = 80,
      fs_fill = ''#0891B2'', dropoff = 20, dropoffPct = ''20%''\<rparr>,
     \<lparr>fs_name = ''Onboarding Started'', fs_shortName = ''Started'', fs_value = 80, fs_users = 80,
      fs_fill = ''#059669'', dropoff = 0, dropoffPct = ''0%''\<rparr>,
     \<lparr>fs_name = ''Demo List / Input'', fs_shortName = ''Input'', fs_value = 50, fs_users = 50,
      fs_fill = ''#D97706'', dropoff = 30, dropoffPct = ''38%''\<rparr>]"

definition all_complete_events :: "event list" where
  "all_complete_events =
    [ev ''2024-03-01T09:00:00+00:00'' ''A'' ''onboarding_started'',
     ev ''2024-03-01T09:05:00+00:00'' ''A'' ''onboarding_completed'']"

definition all_complete_funnel :: "FunnelStep list" where
  "all_complete_funnel =
     [\<lparr>fs_name = ''Onboarding Started'', fs_shortName = ''Started'', fs_value = 1, fs_users = 1,
           fs_fill = ''#059669'', dropoff = 0, dropoffPct = ''''\<rparr>,
          \<lparr>fs_name = ''Completed'', fs_shortName = ''Done'', fs_value = 1, fs_users = 1,
           fs_fill = ''#DB2777'', dropoff = 0, dropoffPct = ''0%''\<rparr>]"

section \<open>Acquisition: truly new and returning-device users (users page)\<close>

definition getProp :: "(props \<Rightarrow> 'a option) \<Rightarrow> event \<Rightarrow> 'a option" where
  \<comment> \<open>\<^verbatim>\<open>e.props?.key\<close>: \<open>None\<close> (\<^verbatim>\<open>undefined\<close>) when \<^verbatim>\<open>props\<close> or the key is missing\<close>
  "getProp key e = (case event_props e of None \<Rightarrow> None | Some p \<Rightarrow> key p)"

record acquisition =
  trulyNewUsers :: "string option list"
  returningDeviceUsers :: "string option list"

definition classifyStep :: "acquisition \<Rightarrow> event \<Rightarrow> acquisition" where
  \<comment> \<open>users page, lines 326-332, the callback of \<^verbatim>\<open>forEach\<close>\<close>
  "classifyStep a e =
     (if getProp is_new_user e = Some True
      then a\<lparr>trulyNewUsers := set_add (firebase_uid e) (trulyNewUsers a)\<rparr>
      else if getProp is_returning_device e = Some True
      then a\<lparr>returningDeviceUsers := set_add (firebase_uid e) (returningDeviceUsers a)\<rparr>
      else a)"

definition classifyNewVsReturning :: "event list \<Rightarrow> acquisition" where
  \<comment> \<open>lines 323-332\<close>
  "classifyNewVsReturning events =
     foldl classifyStep \<lparr>trulyNewUsers = [], returningDeviceUsers = []\<rparr>
       (filter (\<lambda>e. event_name e = ''auth_anonymous_selected'') events)"

definition marker :: "string \<Rightarrow> bool option \<Rightarrow> bool option \<Rightarrow> event" where
  \<comment> \<open>a marker event of user \<open>u\<close> with the two flags\<close>
  "marker u new ret =
     \<lparr>received_at = Some ''2024-03-01T09:00:00+00:00'', firebase_uid = Some u,
      event_name = ''auth_anonymous_selected'', platform = None,
      event_props = Some \<lparr>savings_cents = None, is_new_user = new,
                          is_returning_device = ret, list_key = None\<rparr>\<rparr>"

definition conflicting_events :: "event list" where
  \<comment> \<open>one user: first a marker event flagged new, later one flagged returning-device\<close>
  "conflicting_events = [marker ''u1'' (Some True) None, marker ''u1'' None (Some True)]"

section \<open>Daily buckets (users page)\<close>

record bucket =
  bk_users :: "string option list"
  bk_events :: nat

definition split_T :: "string \<Rightarrow> string" where
  \<comment> \<open>\<^verbatim>\<open>s.split('T')[0]\<close>: the text before the first \<^verbatim>\<open>T\<close>, all of \<open>s\<close> when there is none\<close>
  "split_T s = takeWhile (\<lambda>c. c \<noteq> CHR ''T'') s"

definition dailyStep :: "(string \<times> bucket) list \<Rightarrow> event \<Rightarrow> error + (string \<times> bucket) list" where
  \<comment> \<open>users page, lines 138-146, the callback of \<^verbatim>\<open>forEach\<close>. \<^verbatim>\<open>null.split\<close> throws a
      TypeError. The bucket read back by \<^verbatim>\<open>dailyMap.get(date)!\<close> is the one found, or the
      empty one just stored.\<close>
  "dailyStep dailyMap e =
     (case received_at e of
        None \<Rightarrow> Inl TypeError
      | Some s \<Rightarrow>
          (let date = split_T s;
               day = (case map_of dailyMap date of
                        None \<Rightarrow> \<lparr>bk_users = [], bk_events = 0\<rparr>
                      | Some d \<Rightarrow> d)
           in Inr (AList.update date
                     \<lparr>bk_users = set_add (firebase_uid e) (bk_users day),
                      bk_events = Suc (bk_events day)\<rparr> dailyMap)))"

fun forEach :: "('s \<Rightarrow> 'a \<Rightarrow> error + 's) \<Rightarrow> 's \<Rightarrow> 'a list \<Rightarrow> error + 's" where
  \<comment> \<open>\<^verbatim>\<open>array.forEach\<close> with a callback that may throw: the first exception ends the loop\<close>
  "forEach f s [] = Inr s"
| "forEach f s (x # xs) = (case f s x of Inl err \<Rightarrow> Inl err | Inr s' \<Rightarrow> forEach f s' xs)"

definition dailyMap :: "event list \<Rightarrow> error + (string \<times> bucket) list" where
  "dailyMap events = forEach dailyStep [] events"

definition dayOf :: "event \<Rightarrow> string" where
  \<comment> \<open>the calendar day of an event that has a timestamp\<close>
  "dayOf e = (case received_at e of None \<Rightarrow> [] | Some s \<Rightarrow> split_T s)"

definition onDay :: "string \<Rightarrow> event list \<Rightarrow> event list" where
  "onDay d events = filter (\<lambda>e. dayOf e = d) events"

definition bucketsOf :: "event list \<Rightarrow> string \<Rightarrow> bucket option" where
  \<comment> \<open>closed form of the daily map over events that all have a timestamp\<close>
  "bucketsOf events d =
     (if onDay d events = [] then None
      else Some \<lparr>bk_users = new_Set (map firebase_uid (onDay d events)),
                 bk_events = length (onDay d events)\<rparr>)"

definition no_uid_event :: event where
  "no_uid_event = \<lparr>received_at = Some ''2024-03-01T09:00:00+00:00'', firebase_uid = None,
      event_name = ''app_launch'', platform = None, event_props = None\<rparr>"

definition no_timestamp_event :: event where
  "no_timestamp_event = \<lparr>received_at = None, firebase_uid = Some ''u1'',
      event_name = ''app_launch'', platform = None, event_props = None\<rparr>"

section \<open>Feature adoption (overview page)\<close>

definition EVENT_TO_FEATURE :: "(string \<times> string) list" where
  "EVENT_TO_FEATURE =
    [(''browse_page_viewed'', ''Browse''),
     (''browse_lazy_load'', ''Browse''),
     (''chat_page_viewed'', ''Chat''),
     (''message_sent'', ''Chat''),
     (''basket_viewed'', ''Basket''),
     (''basket_results_displayed'', ''Basket''),
     (''shopping_list_viewed'', ''Shopping List''),
     (''item_added'', ''Shopping List''),
     (''product_added_to_list'', ''Shopping List''),
     (''multiple_products_added'', ''Shopping List''),
     (''settings_page_viewed'', ''Settings''),
     (''language_selected'', ''Settings''),
     (''onboarding_started'', ''Onboarding''),
     (''onboarding_completed'', ''Onboarding''),
     (''comparison_started'', ''Comparison''),
     (''product_swapped'', ''Comparison''),
     (''quick_action_tapped'', ''Quick Actions''),
     (''demo_list_selected'', ''Demo''),
     (''app_launch'', ''App Launch''),
     (''splash_load_completed'', ''App Launch'')]"

record FeatureAdoption =
  fa_feature :: string
  fa_users :: nat
  fa_events :: nat
  adoption_rate :: jsnum

definition featureOf :: "event \<Rightarrow> string" where
  \<comment> \<open>\<^verbatim>\<open>EVENT_TO_FEATURE[e.event_name] || 'Other'\<close> (every feature name of the table is a
      non-empty string)\<close>
  "featureOf e = (case map_of EVENT_TO_FEATURE (event_name e) of None \<Rightarrow> ''Other'' | Some f \<Rightarrow> f)"

definition featureStep :: "(string \<times> bucket) list \<Rightarrow> event \<Rightarrow> (string \<times> bucket) list" where
  \<comment> \<open>overview page, lines 641-649, the callback of \<^verbatim>\<open>forEach\<close>\<close>
  "featureStep featureMap e =
     (let feature = featureOf e;
          f = (case map_of featureMap feature of
                 None \<Rightarrow> \<lparr>bk_users = [], bk_events = 0\<rparr>
               | Some d \<Rightarrow> d)
      in AList.update feature
           \<lparr>bk_users = set_add (firebase_uid e) (bk_users f), bk_events = Suc (bk_events f)\<rparr>
           featureMap)"

definition featureMap :: "event list \<Rightarrow> (string \<times> bucket) list" where
  "featureMap events = foldl featureStep [] events"

definition allUsers :: "event list \<Rightarrow> string option list" where
  \<comment> \<open>overview page, line 592\<close>
  "allUsers events = new_Set (map firebase_uid events)"

definition featureRow :: "event list \<Rightarrow> string \<times> bucket \<Rightarrow> FeatureAdoption" where
  \<comment> \<open>lines 652-657; the division is not guarded\<close>
  "featureRow events = (\<lambda>(feature, data).
     \<lparr>fa_feature = feature, fa_users = length (bk_users data), fa_events = bk_events data,
      adoption_rate =
        Math_round (jsmul (jsdiv (of_nat (length (bk_users data)))
                                 (of_nat (length (allUsers events)))) 100)\<rparr>)"

definition featureArray :: "event list \<Rightarrow> FeatureAdoption list" where
  \<comment> \<open>lines 651-658; \<^verbatim>\<open>sort\<close> is stable, more users first\<close>
  "featureArray events =
     sort_key (\<lambda>r. - int (fa_users r)) (map (featureRow events) (featureMap events))"

definition feature_inv :: "event list \<Rightarrow> (string \<times> bucket) list \<Rightarrow> bool" where
  "feature_inv events m \<longleftrightarrow>
     (\<forall>(k, b) \<in> set m. bk_users b \<noteq> [] \<and> distinct (bk_users b) \<and>
                        set (bk_users b) \<subseteq> firebase_uid ` set events)"

definition two_feature_events :: "event list" where
  "two_feature_events =
     [ev ''2024-03-01T09:00:00+00:00'' ''A'' ''message_sent'',
      ev ''2024-03-01T09:05:00+00:00'' ''B'' ''basket_viewed'',
      ev ''2024-03-02T10:00:00+00:00'' ''C'' ''basket_viewed'']"

section \<open>User segments by activity level (users page)\<close>

fun jsadd :: "jsnum \<Rightarrow> rat \<Rightarrow> jsnum" where
  \<comment> \<open>\<^verbatim>\<open>x + b\<close> for a finite \<open>b\<close>\<close>
  "jsadd (Num a) b = Num (a + b)"
| "jsadd x b = x"

fun jsquot :: "jsnum \<Rightarrow> rat \<Rightarrow> jsnum" where
  \<comment> \<open>\<^verbatim>\<open>x / b\<close> for a finite \<open>b\<close>\<close>
  "jsquot (Num a) b = jsdiv a b"
| "jsquot NaN b = NaN"
| "jsquot PosInfinity b = (if b < 0 then NegInfinity else PosInfinity)"
| "jsquot NegInfinity b = (if b < 0 then PosInfinity else NegInfinity)"

record activity =
  ua_events :: nat
  ua_savings :: jsnum

definition add_savings :: "jsnum \<Rightarrow> event \<Rightarrow> jsnum" where
  \<comment> \<open>\<^verbatim>\<open>if (e.props?.savings_cents) total += e.props.savings_cents\<close>: a missing value and 0
      are falsy; the sum is one of doubles\<close>
  "add_savings tot e =
     (case getProp savings_cents e of
        None \<Rightarrow> tot
      | Some c \<Rightarrow> if truthy c then jsplus tot c else tot)"

definition activityStep ::
  "(string option \<times> activity) list \<Rightarrow> event \<Rightarrow> (string option \<times> activity) list" where
  \<comment> \<open>users page, lines 263-272, the callback of \<^verbatim>\<open>forEach\<close>\<close>
  "activityStep userActivity e =
     (let user = (case map_of userActivity (firebase_uid e) of
                    None \<Rightarrow> \<lparr>ua_events = 0, ua_savings = Num 0\<rparr>
                  | Some a \<Rightarrow> a)
      in AList.update (firebase_uid e)
           \<lparr>ua_events = Suc (ua_events user), ua_savings = add_savings (ua_savings user) e\<rparr>
           userActivity)"

definition userActivity :: "event list \<Rightarrow> (string option \<times> activity) list" where
  "userActivity events = foldl activityStep [] events"

record UserSegment =
  segment :: string
  seg_users :: nat
  avgEvents :: jsnum
  avgSavings :: jsnum

definition initialSegments :: "UserSegment list" where
  \<comment> \<open>lines 274-279\<close>
  "initialSegments =
    [\<lparr>segment = ''Power (50+ events)'', seg_users = 0, avgEvents = Num 0, avgSavings = Num 0\<rparr>,
     \<lparr>segment = ''Active (20-49)'', seg_users = 0, avgEvents = Num 0, avgSavings = Num 0\<rparr>,
     \<lparr>segment = ''Casual (5-19)'', seg_users = 0, avgEvents = Num 0, avgSavings = Num 0\<rparr>,
     \<lparr>segment = ''New (1-4)'', seg_users = 0, avgEvents = Num 0, avgSavings = Num 0\<rparr>]"

definition segmentIndex :: "nat \<Rightarrow> nat" where
  \<comment> \<open>lines 282-286\<close>
  "segmentIndex n = (if 50 \<le> n then 0 else if 20 \<le> n then 1 else if 5 \<le> n then 2 else 3)"

definition addToSegment :: "UserSegment list \<Rightarrow> activity \<Rightarrow> UserSegment list" where
  \<comment> \<open>lines 281-291, the callback of \<^verbatim>\<open>userActivity.forEach\<close>; the index is always in range\<close>
  "addToSegment segments data =
     (let k = segmentIndex (ua_events data); s = segments ! k
      in segments[k := s\<lparr>seg_users := Suc (seg_users s),
                          avgEvents := jsadd (avgEvents s) (of_nat (ua_events data)),
                          avgSavings := jsplus (avgSavings s) (ua_savings data)\<rparr>])"

definition averageSegment :: "UserSegment \<Rightarrow> UserSegment" where
  \<comment> \<open>lines 293-298\<close>
  "averageSegment s =
     (if 0 < seg_users s
      then s\<lparr>avgEvents := Math_round (jsquot (avgEvents s) (of_nat (seg_users s))),
             avgSavings := Math_round (jsquot (avgSavings s) (of_nat (seg_users s)))\<rparr>
      else s)"

definition segments :: "event list \<Rightarrow> UserSegment list" where
  "segments events =
     map averageSegment (foldl addToSegment initialSegments (map snd (userActivity events)))"

text \<open>
  The specification's reading: thresholds from high to low, the first one a user's event
  count meets wins; a user's event count and summed savings; the users of a row in the
  order of their first event, and the sum of their savings.
\<close>

definition SEGMENT_THRESHOLDS :: "(nat \<times> string) list" where
  "SEGMENT_THRESHOLDS = [(50, ''Power''), (20, ''Active''), (5, ''Casual''), (0, ''New'')]"

definition firstMatch :: "(nat \<times> string) list \<Rightarrow> nat \<Rightarrow> nat" where
  "firstMatch thresholds n = length (takeWhile (\<lambda>(minEvents, label). \<not> minEvents \<le> n) thresholds)"

definition eventsOf :: "event list \<Rightarrow> string option \<Rightarrow> nat" where
  "eventsOf events u = length (filter (\<lambda>e. firebase_uid e = u) events)"

definition savingsOf :: "event list \<Rightarrow> string option \<Rightarrow> jsnum" where
  "savingsOf events u = foldl add_savings (Num 0) (filter (\<lambda>e. firebase_uid e = u) events)"

definition usersIn :: "event list \<Rightarrow> nat \<Rightarrow> string option set" where
  "usersIn events k =
     {u \<in> firebase_uid ` set events. firstMatch SEGMENT_THRESHOLDS (eventsOf events u) = k}"

definition segmentUsers :: "event list \<Rightarrow> nat \<Rightarrow> string option list" where
  "segmentUsers events k =
     filter (\<lambda>u. firstMatch SEGMENT_THRESHOLDS (eventsOf events u) = k)
       (new_Set (map firebase_uid events))"

definition segmentSavings :: "event list \<Rightarrow> nat \<Rightarrow> jsnum" where
  "segmentSavings events k = foldl jsplus (Num 0) (map (savingsOf events) (segmentUsers events k))"

definition activityOf :: "event list \<Rightarrow> string option \<Rightarrow> activity" where
  "activityOf events u = \<lparr>ua_events = eventsOf events u, ua_savings = savingsOf events u\<rparr>"

definition inSegment :: "nat \<Rightarrow> activity list \<Rightarrow> activity list" where
  "inSegment k ds = filter (\<lambda>d. segmentIndex (ua_events d) = k) ds"

definition twenty_events :: "event list" where
  \<comment> \<open>one user with exactly 20 events\<close>
  "twenty_events = replicate 20 (ev ''2024-03-01T09:00:00+00:00'' ''A'' ''app_launch'')"

section \<open>Latency per response type (users page)\<close>

text \<open>
  A row of \<^verbatim>\<open>chat_messages\<close> as the users page selects it. Processing durations are whole
  milliseconds. The indices \<^verbatim>\<open>Math.floor(n * 0.5)\<close> and \<^verbatim>\<open>Math.floor(n * 0.95)\<close> are
  \<open>n div 2\<close> and \<open>19 * n div 20\<close>: the double product \<^verbatim>\<open>n * 0.95\<close> rounds to the exact
  integer whenever \<open>19 * n / 20\<close> is one.
\<close>

record message =
  processing_ms :: "int option"
  response_type :: "string option"

record LatencyRow =
  lt_type :: string
  lt_count :: nat
  lt_avg :: jsnum
  lt_p50 :: int
  lt_p95 :: int

definition latencyStep :: "(string \<times> int list) list \<Rightarrow> message \<Rightarrow> (string \<times> int list) list" where
  \<comment> \<open>users page, lines 363-370: a message counts when both fields are truthy (not
      \<^verbatim>\<open>null\<close>, not 0, not the empty string)\<close>
  "latencyStep latencyMap m =
     (case (processing_ms m, response_type m) of
        (Some ms, Some ty) \<Rightarrow>
          (if ms \<noteq> 0 \<and> ty \<noteq> []
           then AList.update ty
                  ((case map_of latencyMap ty of None \<Rightarrow> [] | Some tms \<Rightarrow> tms) @ [ms])
                  latencyMap
           else latencyMap)
      | _ \<Rightarrow> latencyMap)"

definition latencyMap :: "message list \<Rightarrow> (string \<times> int list) list" where
  \<comment> \<open>lines 361-371\<close>
  "latencyMap messages = foldl latencyStep [] messages"

definition at_or_0 :: "int list \<Rightarrow> int \<Rightarrow> int" where
  \<comment> \<open>\<^verbatim>\<open>sorted[i] || 0\<close>: an index out of range reads \<^verbatim>\<open>undefined\<close>, which is falsy, as 0 is\<close>
  "at_or_0 xs i = (if 0 \<le> i \<and> i < int (length xs) then xs ! nat i else 0)"

definition latencyRow :: "string \<times> int list \<Rightarrow> LatencyRow" where
  \<comment> \<open>lines 373-383, the callback of \<^verbatim>\<open>map\<close>; the division of the mean is not guarded\<close>
  "latencyRow = (\<lambda>(ty, tms).
     (let sorted = sort tms;
          p50Index = int (length sorted) div 2;
          p95Index = min (19 * int (length sorted) div 20) (int (length sorted) - 1)
      in \<lparr>lt_type = map (\<lambda>c. if c = CHR ''_'' then CHR '' '' else c) ty,
          lt_count = length tms,
          lt_avg = Math_round (jsdiv (of_int (sum_list tms)) (of_nat (length tms))),
          lt_p50 = at_or_0 sorted p50Index,
          lt_p95 = at_or_0 sorted p95Index\<rparr>))"

definition latencies :: "message list \<Rightarrow> LatencyRow list" where
  \<comment> \<open>lines 373-384; rows with more samples first, the sort is stable\<close>
  "latencies messages =
     sort_key (\<lambda>r. - int (lt_count r)) (map latencyRow (latencyMap messages))"

text \<open>
  The specification's reading of the rows: a message is recorded when it has a truthy
  duration and a truthy response type; the times of a response type are the durations of
  its recorded messages, in the order of the messages; the response types are those of
  the recorded messages, in the order of their first one.
\<close>

definition recorded :: "message \<Rightarrow> (string \<times> int) option" where
  "recorded m =
     (case (processing_ms m, response_type m) of
        (Some ms, Some ty) \<Rightarrow> if ms \<noteq> 0 \<and> ty \<noteq> [] then Some (ty, ms) else None
      | _ \<Rightarrow> None)"

definition timesOf :: "string \<Rightarrow> message list \<Rightarrow> int list" where
  "timesOf ty messages =
     map snd (filter (\<lambda>(t, ms). t = ty) (List.map_filter recorded messages))"

definition typesOf :: "message list \<Rightarrow> string list" where
  "typesOf messages = new_Set (map fst (List.map_filter recorded messages))"

definition msg :: "string \<Rightarrow> int \<Rightarrow> message" where
  "msg ty ms = \<lparr>processing_ms = Some ms, response_type = Some ty\<rparr>"

definition two_messages :: "message list" where
  "two_messages = [msg ''chat'' 1, msg ''chat'' 2]"

definition five_messages :: "message list" where
  \<comment> \<open>three recorded times for one type, one for another, and two messages that are not
      recorded: one with a duration of 0, one without a response type\<close>
  "five_messages =
     [msg ''chat_reply'' 30, msg ''search'' 7, msg ''chat_reply'' 10, msg ''search'' 0,
      \<lparr>processing_ms = Some 5, response_type = None\<rparr>, msg ''chat_reply'' 50]"

section \<open>Dates\<close>

text \<open>
  A JavaScript \<^verbatim>\<open>Date\<close> is its time value: milliseconds since the epoch, or \<open>None\<close> for an
  Invalid Date. \<^verbatim>\<open>new Date(s)\<close> belongs to the language, not to the pages: the functions
  below take it as the parameter \<open>newDate\<close>, and one pass reads the clock once, as \<open>now\<close>.

  \<^verbatim>\<open>startOfWeek\<close> and \<^verbatim>\<open>format\<close> of date-fns read a date in the browser's zone, through
  \<^verbatim>\<open>getDay\<close>, \<^verbatim>\<open>getDate\<close> and \<^verbatim>\<open>getMonth\<close>. They are modelled as calendar arithmetic on a
  local time value, a number of milliseconds whose day number and time of day are those
  of the local clock. The weekly buckets get the zone as the parameter \<open>tz\<close>, the offset of
  local time at an instant: the local time of \<open>t\<close> is \<open>t + tz t\<close>. The labels of the cohort
  rows and of the days are rendered for UTC. The calendar is the one of the language
  standard: \<open>DayFromYear\<close>, \<open>DaysInYear\<close>, the year, month and date of a day number.
\<close>

definition msPerDay :: int where
  "msPerDay = 86400000"

definition subDays :: "int \<Rightarrow> int \<Rightarrow> int" where
  "subDays date amount = date - amount * msPerDay"

definition getDay :: "int \<Rightarrow> int" where
  \<comment> \<open>day of the week, 0 for Sunday; 1 January 1970 was a Thursday\<close>
  "getDay date = (date div msPerDay + 4) mod 7"

definition startOfWeek :: "int \<Rightarrow> int" where
  \<comment> \<open>\<^verbatim>\<open>startOfWeek(date, { weekStartsOn: 1 })\<close>: the date is set back by
      \<^verbatim>\<open>(day < 1 ? 7 : 0) + day - 1\<close> days, the time of day to midnight\<close>
  "startOfWeek date =
     (let day = getDay date;
          diff = (if day < 1 then 7 else 0) + day - 1
      in (date div msPerDay - diff) * msPerDay)"

definition DayFromYear :: "int \<Rightarrow> int" where
  \<comment> \<open>the day number of 1 January of year \<open>y\<close>\<close>
  "DayFromYear y =
     365 * (y - 1970) + (y - 1969) div 4 - (y - 1901) div 100 + (y - 1601) div 400"

definition DaysInYear :: "int \<Rightarrow> int" where
  "DaysInYear y =
     (if y mod 4 \<noteq> 0 then 365 else if y mod 100 \<noteq> 0 then 366
      else if y mod 400 \<noteq> 0 then 365 else 366)"

definition YearFromDay :: "int \<Rightarrow> int" where
  \<comment> \<open>the largest year \<open>y\<close> with \<open>DayFromYear y \<le> day\<close>: one of the three years around
      \<open>day / 365.2425\<close>\<close>
  "YearFromDay day =
     (let e = 1970 + 400 * day div 146097 in
      if DayFromYear (e + 1) \<le> day then e + 1
      else if DayFromYear e \<le> day then e
      else e - 1)"

definition DayWithinYear :: "int \<Rightarrow> int" where
  "DayWithinYear day = day - DayFromYear (YearFromDay day)"

definition InLeapYear :: "int \<Rightarrow> int" where
  "InLeapYear day = (if DaysInYear (YearFromDay day) = 366 then 1 else 0)"

definition month_date :: "int \<Rightarrow> int \<Rightarrow> int \<times> int" where
  \<comment> \<open>month (1 to 12) and day of the month of the day \<open>w\<close> within a year\<close>
  "month_date w leap =
     (if w < 31 then (1, w + 1)
      else if w < 59 + leap then (2, w - 30)
      else if w < 90 + leap then (3, w - 58 - leap)
      else if w < 120 + leap then (4, w - 89 - leap)
      else if w < 151 + leap then (5, w - 119 - leap)
      else if w < 181 + leap then (6, w - 150 - leap)
      else if w < 212 + leap then (7, w - 180 - leap)
      else if w < 243 + leap then (8, w - 211 - leap)
      else if w < 273 + leap then (9, w - 242 - leap)
      else if w < 304 + leap then (10, w - 272 - leap)
      else if w < 334 + leap then (11, w - 303 - leap)
      else (12, w - 333 - leap))"

definition month_day :: "int \<Rightarrow> int \<times> int" where
  \<comment> \<open>month and day of the month of a day number counted from 1 January 1970\<close>
  "month_day day = month_date (DayWithinYear day) (InLeapYear day)"


definition MONTHS :: "string list" where
  "MONTHS = [''Jan'', ''Feb'', ''Mar'', ''Apr'', ''May'', ''Jun'',
             ''Jul'', ''Aug'', ''Sep'', ''Oct'', ''Nov'', ''Dec'']"

definition format_MMM_dd :: "int \<Rightarrow> string" where
  \<comment> \<open>\<^verbatim>\<open>format(date, 'MMM dd')\<close> of a valid date: month name and two-digit day, no year\<close>
  "format_MMM_dd date =
     (case month_day (date div msPerDay) of
        (m, d) \<Rightarrow> MONTHS ! nat (m - 1) @ '' '' @ [digit_char (nat d div 10), digit_char (nat d)])"

text \<open>
  A concrete \<open>newDate\<close> for the examples: it reads \<^verbatim>\<open>YYYY-MM-DDTHH:MM:SS\<close> at the head of
  the store's timestamps as UTC and ignores what follows (fraction and \<^verbatim>\<open>+00:00\<close>);
  \<^verbatim>\<open>new Date(null)\<close> is the epoch.
\<close>

definition digit_val :: "char \<Rightarrow> nat option" where
  "digit_val c = (let n = (of_char c :: nat) in if 48 \<le> n \<and> n \<le> 57 then Some (n - 48) else None)"

fun number_acc :: "nat \<Rightarrow> string \<Rightarrow> nat option" where
  "number_acc a [] = Some a"
| "number_acc a (c # cs) =
     (case digit_val c of None \<Rightarrow> None | Some d \<Rightarrow> number_acc (10 * a + d) cs)"

definition number :: "string \<Rightarrow> nat option" where
  "number s = (if s = [] then None else number_acc 0 s)"

definition days_from_civil :: "int \<Rightarrow> int \<Rightarrow> int \<Rightarrow> int" where
  "days_from_civil y m d =
     (let y' = (if m \<le> 2 then y - 1 else y);
          era = y' div 400;
          yoe = y' - era * 400;
          doy = (153 * (if 2 < m then m - 3 else m + 9) + 2) div 5 + d - 1;
          doe = yoe * 365 + yoe div 4 - yoe div 100 + doy
      in era * 146097 + doe - 719468)"

definition parseISO :: "string option \<Rightarrow> int option" where
  "parseISO x =
     (case x of
        None \<Rightarrow> Some 0
      | Some s \<Rightarrow>
         (case (number (take 4 s), number (take 2 (drop 5 s)), number (take 2 (drop 8 s)),
                number (take 2 (drop 11 s)), number (take 2 (drop 14 s)),
                number (take 2 (drop 17 s))) of
            (Some y, Some m, Some d, Some hh, Some mm, Some ss) \<Rightarrow>
              Some (days_from_civil (int y) (int m) (int d) * msPerDay
                    + ((int hh * 60 + int mm) * 60 + int ss) * 1000)
          | _ \<Rightarrow> None))"

section \<open>Cohort retention (users page)\<close>

record RetentionData =
  cohort :: string
  rd_users :: nat
  w1 :: jsnum
  w2 :: jsnum
  w4 :: jsnum

definition in_window :: "int option \<Rightarrow> int \<Rightarrow> int \<Rightarrow> bool" where
  \<comment> \<open>\<^verbatim>\<open>date >= start && date < end\<close>; every comparison with an Invalid Date is false\<close>
  "in_window date start end = (case date of None \<Rightarrow> False | Some t \<Rightarrow> start \<le> t \<and> t < end)"

definition cohortStart :: "int \<Rightarrow> int \<Rightarrow> int" where
  \<comment> \<open>users page, line 225\<close>
  "cohortStart now weeksAgo = subDays now (weeksAgo * 7)"

definition cohortEnd :: "int \<Rightarrow> int \<Rightarrow> int" where
  \<comment> \<open>line 226\<close>
  "cohortEnd now weeksAgo = subDays now ((weeksAgo - 1) * 7)"

definition cohortUsers ::
  "(string option \<Rightarrow> int option) \<Rightarrow> int \<Rightarrow> event list \<Rightarrow> int \<Rightarrow> string option list" where
  \<comment> \<open>lines 228-233\<close>
  "cohortUsers newDate now events weeksAgo =
     new_Set (map firebase_uid
       (filter (\<lambda>e. in_window (newDate (received_at e))
                        (cohortStart now weeksAgo) (cohortEnd now weeksAgo)) events))"

definition checkRetention ::
  "(string option \<Rightarrow> int option) \<Rightarrow> int \<Rightarrow> event list \<Rightarrow> int \<Rightarrow> int \<Rightarrow> nat" where
  \<comment> \<open>lines 238-249\<close>
  "checkRetention newDate now events weeksAgo weeksLater =
     (if weeksAgo - weeksLater < 0 then 0
      else
        (let checkStart = subDays now ((weeksAgo - weeksLater) * 7);
             checkEnd = subDays now (max 0 ((weeksAgo - weeksLater - 1) * 7));
             returnedUsers =
               filter (\<lambda>e. in_window (newDate (received_at e)) checkStart checkEnd \<and>
                            firebase_uid e \<in> set (cohortUsers newDate now events weeksAgo)) events
         in length (new_Set (map firebase_uid returnedUsers))))"

definition retentionPct ::
  "(string option \<Rightarrow> int option) \<Rightarrow> int \<Rightarrow> event list \<Rightarrow> int \<Rightarrow> int \<Rightarrow> jsnum" where
  \<comment> \<open>lines 254-256, one of the three fields\<close>
  "retentionPct newDate now events weeksAgo weeksLater =
     (let size = length (cohortUsers newDate now events weeksAgo) in
      if 0 < size
      then Math_round (jsmul (jsdiv (of_nat (checkRetention newDate now events weeksAgo weeksLater))
                                    (of_nat size)) 100)
      else Num 0)"

definition cohortRow ::
  "(string option \<Rightarrow> int option) \<Rightarrow> int \<Rightarrow> event list \<Rightarrow> int \<Rightarrow> RetentionData option" where
  \<comment> \<open>the body of the loop, lines 225-257; \<open>None\<close> is \<^verbatim>\<open>continue\<close>\<close>
  "cohortRow newDate now events weeksAgo =
     (if length (cohortUsers newDate now events weeksAgo) = 0 then None
      else Some \<lparr>cohort = format_MMM_dd (cohortStart now weeksAgo),
                 rd_users = length (cohortUsers newDate now events weeksAgo),
                 w1 = retentionPct newDate now events weeksAgo 1,
                 w2 = retentionPct newDate now events weeksAgo 2,
                 w4 = retentionPct newDate now events weeksAgo 4\<rparr>)"

definition cohorts ::
  "(string option \<Rightarrow> int option) \<Rightarrow> int \<Rightarrow> event list \<Rightarrow> RetentionData list" where
  \<comment> \<open>lines 223-258: \<^verbatim>\<open>for (let weeksAgo = 4; weeksAgo >= 1; weeksAgo--)\<close>\<close>
  "cohorts newDate now events =
     concat (map (\<lambda>weeksAgo. case cohortRow newDate now events weeksAgo of
                                None \<Rightarrow> [] | Some row \<Rightarrow> [row]) [4, 3, 2, 1])"

definition cohortWeeks :: "(string option \<Rightarrow> int option) \<Rightarrow> int \<Rightarrow> event list \<Rightarrow> int list" where
  \<comment> \<open>the values of \<^verbatim>\<open>weeksAgo\<close> whose cohort has a user, in the order of the loop\<close>
  "cohortWeeks newDate now events =
     filter (\<lambda>weeksAgo. cohortUsers newDate now events weeksAgo \<noteq> []) [4, 3, 2, 1]"

definition cohort_now :: int where
  \<comment> \<open>2024-03-29T12:00:00Z\<close>
  "cohort_now = 1711713600000"

definition cohort_events :: "event list" where
  \<comment> \<open>user A is active 9 days and 1 day before \<open>cohort_now\<close>, user B 10 days before\<close>
  "cohort_events =
     [ev ''2024-03-19T12:00:00+00:00'' ''B'' ''app_launch'',
      ev ''2024-03-20T12:00:00+00:00'' ''A'' ''app_launch'',
      ev ''2024-03-28T12:00:00+00:00'' ''A'' ''app_launch'']"

section \<open>Weekly buckets (users page)\<close>

record week_data =
  wk_users :: "string option list"
  wk_baskets :: nat

definition localTime :: "(int \<Rightarrow> int) \<Rightarrow> int \<Rightarrow> int" where
  \<comment> \<open>the local time value of the instant \<open>t\<close> in the zone \<open>tz\<close>\<close>
  "localTime tz t = t + tz t"

definition weeklyStep ::
  "(string option \<Rightarrow> int option) \<Rightarrow> (int \<Rightarrow> int) \<Rightarrow> (string \<times> week_data) list \<Rightarrow> event
     \<Rightarrow> error + (string \<times> week_data) list" where
  \<comment> \<open>users page, lines 159-169, the callback of \<^verbatim>\<open>forEach\<close>; \<^verbatim>\<open>format\<close> throws a RangeError
      on an Invalid Date. \<^verbatim>\<open>startOfWeek\<close> returns the instant of the local midnight it
      computes and \<^verbatim>\<open>format\<close> renders the local time of that instant, so the label is the
      one of that local midnight.\<close>
  "weeklyStep newDate tz weeklyMap e =
     (case newDate (received_at e) of
        None \<Rightarrow> Inl RangeError
      | Some date \<Rightarrow>
          (let weekStart = format_MMM_dd (startOfWeek (localTime tz date));
               week = (case map_of weeklyMap weekStart of
                         None \<Rightarrow> \<lparr>wk_users = [], wk_baskets = 0\<rparr>
                       | Some w \<Rightarrow> w)
           in Inr (AList.update weekStart
                     \<lparr>wk_users = set_add (firebase_uid e) (wk_users week),
                      wk_baskets = (if event_name e = ''basket_results_displayed''
                                    then Suc (wk_baskets week) else wk_baskets week)\<rparr>
                     weeklyMap)))"

definition weeklyMap ::
  "(string option \<Rightarrow> int option) \<Rightarrow> (int \<Rightarrow> int) \<Rightarrow> event list
     \<Rightarrow> error + (string \<times> week_data) list" where
  "weeklyMap newDate tz events = forEach (weeklyStep newDate tz) [] events"














section \<open>Ratios and percentages\<close>

text \<open>
  The three guarded divisions that the pages repeat. The guard is the source's; the
  division under it is \<open>jsdiv\<close>, which would show a \<open>NaN\<close> or an infinity if the guard
  let a zero denominator through. The numerator of \<open>roundedMean\<close> is a sum of savings, a
  double that the guard does not look at.
\<close>

definition pct :: "nat \<Rightarrow> nat \<Rightarrow> jsnum" where
  \<comment> \<open>\<^verbatim>\<open>d > 0 ? Math.round((n / d) * 100) : 0\<close>\<close>
  "pct n d = (if 0 < d then Math_round (jsmul (jsdiv (of_nat n) (of_nat d)) 100) else Num 0)"



subsection \<open>Users page: active users and week-1 retention\<close>











subsection \<open>Users page: baskets, savings, activation, acquisition\<close>
















subsection \<open>Onboarding page: overall rate and rate per day\<close>









subsection \<open>What the claim asks of a ratio\<close>










section \<open>The end of the double range\<close>

text \<open>The bound \<open>2\<^sup>1\<^sup>0\<^sup>2\<^sup>4 - 2\<^sup>9\<^sup>7\<^sup>0\<close> written out, for evaluation.\<close>

lemma overflow_code [code]:
  "overflow r =
     (if 179769313486231580793728971405303415079934132710037826936173778980444968292764750946649017977587207096330286416692887910946555547851940402630657488671505820681908902000708383676273854845817711531764475730270069855571366959622842914819860834936475292719074168444365510704342711559699508093042880177904174497792 \<le> r then PosInfinity
      else if r \<le> - 179769313486231580793728971405303415079934132710037826936173778980444968292764750946649017977587207096330286416692887910946555547851940402630657488671505820681908902000708383676273854845817711531764475730270069855571366959622842914819860834936475292719074168444365510704342711559699508093042880177904174497792 then NegInfinity
      else Num r)"
  by (simp add: overflow_def)

section \<open>Sets and maps\<close>

lemma set_set_add: "set (set_add x xs) = insert x (set xs)"
  by (auto simp: set_add_def)

lemma distinct_set_add: "distinct xs \<Longrightarrow> distinct (set_add x xs)"
  by (simp add: set_add_def)

lemma new_Set_snoc: "new_Set (xs @ [x]) = set_add x (new_Set xs)"
  by (simp add: new_Set_def)

lemma new_Set_Nil: "new_Set [] = []"
  by (simp add: new_Set_def)

lemma set_new_Set: "set (new_Set xs) = set xs"
  by (induction xs rule: rev_induct) (simp_all add: new_Set_snoc new_Set_Nil set_set_add)

lemma distinct_new_Set: "distinct (new_Set xs)"
  by (induction xs rule: rev_induct) (simp_all add: new_Set_snoc new_Set_Nil distinct_set_add)

lemma length_new_Set: "length (new_Set xs) = card (set xs)"
  using distinct_card [OF distinct_new_Set, of xs] by (simp add: set_new_Set)

lemma collect_map:
  "(\<And>x. x \<in> set xs \<Longrightarrow> f x = Inr (g x)) \<Longrightarrow> collect (map f xs) = Inr (map g xs)"
  by (induction xs) simp_all

lemma toFixed0_nearest:
  "\<exists>m. toFixed0 x = (if x < 0 then ''-'' else '''') @ show_nat m \<and> \<bar>of_nat m - \<bar>x\<bar>\<bar> \<le> 1 / 2"
proof -
  define m where "m = nat \<lfloor>\<bar>x\<bar> + 1 / 2\<rfloor>"
  have nonneg: "0 \<le> \<lfloor>\<bar>x\<bar> + 1 / 2\<rfloor>" by simp
  have "of_int \<lfloor>\<bar>x\<bar> + 1 / 2\<rfloor> \<le> \<bar>x\<bar> + 1 / 2" "\<bar>x\<bar> + 1 / 2 < of_int \<lfloor>\<bar>x\<bar> + 1 / 2\<rfloor> + 1"
    by linarith+
  moreover have "(of_nat m :: rat) = of_int \<lfloor>\<bar>x\<bar> + 1 / 2\<rfloor>"
    using nonneg by (simp add: m_def)
  ultimately have near: "\<bar>of_nat m - \<bar>x\<bar>\<bar> \<le> 1 / 2" by linarith
  have "toFixed0 x = (if x < 0 then ''-'' else '''') @ show_nat m"
    by (simp add: toFixed0_def m_def abs_if)
  with near show ?thesis by blast
qed

section \<open>The funnel\<close>

lemma map_of_initCounts:
  "map_of (initCounts steps) k =
     (if k \<in> st_event ` set steps then Some \<lparr>sd_count = 0, sd_users = []\<rparr> else None)"
  unfolding initCounts_def
  by (induction steps rule: rev_induct) (auto simp: update_conv')

lemma map_of_countEvent:
  "map_of (countEvent ec e) k =
     (if k = event_name e then
        (case map_of ec k of None \<Rightarrow> None
         | Some step \<Rightarrow> Some \<lparr>sd_count = Suc (sd_count step),
             sd_users = set_add (firebase_uid e) (sd_users step)\<rparr>)
      else map_of ec k)"
  by (auto simp: countEvent_def update_conv' split: option.splits)

lemma map_of_eventCounts:
  "map_of (eventCounts steps events) k =
     (if k \<in> st_event ` set steps
      then Some \<lparr>sd_count = length (named k events),
                 sd_users = new_Set (map firebase_uid (named k events))\<rparr>
      else None)"
proof (induction events rule: rev_induct)
  case Nil
  then show ?case by (simp add: eventCounts_def map_of_initCounts named_def new_Set_Nil)
next
  case (snoc e es)
  have step: "eventCounts steps (es @ [e]) = countEvent (eventCounts steps es) e"
    by (simp add: eventCounts_def)
  show ?case
    unfolding step map_of_countEvent snoc.IH
    by (simp add: named_def new_Set_snoc)
qed

lemma named_users:
  "length (new_Set (map firebase_uid (named k events))) =
     card (firebase_uid ` {e \<in> set events. event_name e = k})"
  by (simp add: length_new_Set named_def)

lemma get_counts_eventCounts:
  "i < length steps \<Longrightarrow>
   get_counts (eventCounts steps events) (st_event (steps ! i)) =
     Inr \<lparr>sd_count = length (named (st_event (steps ! i)) events),
          sd_users = new_Set (map firebase_uid (named (st_event (steps ! i)) events))\<rparr>"
  by (simp add: get_counts_def map_of_eventCounts)

lemma funnelStep_eq:
  assumes "i < length steps"
  shows "funnelStep steps (eventCounts steps events) i = Inr (stepOf steps events i)"
proof (cases "0 < i")
  case True
  then have "i - 1 < length steps" using assms by simp
  then show ?thesis
    using True assms
    by (simp add: funnelStep_def get_counts_eventCounts stepOf_def usersAtStep_def named_users
          Let_def card_gt_0_iff del: length_greater_0_conv)
next
  case False
  then show ?thesis
    using assms
    by (simp add: funnelStep_def get_counts_eventCounts stepOf_def usersAtStep_def named_users Let_def)
qed

lemma buildFunnel_eq:
  "buildFunnel steps events = Inr (map (stepOf steps events) [0..<length steps])"
  unfolding buildFunnel_def
  by (rule collect_map) (simp add: funnelStep_eq)

lemma scenario_value:
  "buildFunnel scenario_steps scenario_events =
     Inr [\<lparr>fs_name = ''Onboarding Started'', fs_shortName = ''Started'', fs_value = 2, fs_users = 2,
           fs_fill = ''#059669'', dropoff = 0, dropoffPct = ''''\<rparr>,
          \<lparr>fs_name = ''Completed'', fs_shortName = ''Done'', fs_value = 1, fs_users = 1,
           fs_fill = ''#DB2777'', dropoff = 1, dropoffPct = ''50%''\<rparr>]"
  by code_simp

lemma stepOf_pct:
  assumes "0 < i" and p: "0 < usersAtStep steps events (i - 1)"
  shows "\<exists>m. dropoffPct (stepOf steps events i) =
              (if dropoff (stepOf steps events i) < 0 then ''-'' else '''') @ show_nat m @ ''%'' \<and>
            \<bar>of_nat m - \<bar>of_int (dropoff (stepOf steps events i))
                            / of_nat (usersAtStep steps events (i - 1)) * 100 :: rat\<bar>\<bar> \<le> 1 / 2"
proof -
  let ?d = "int (usersAtStep steps events (i - 1)) - int (usersAtStep steps events i)"
  let ?x = "of_int ?d / of_nat (usersAtStep steps events (i - 1)) * 100 :: rat"
  obtain m where m: "toFixed0 ?x = (if ?x < 0 then ''-'' else '''') @ show_nat m"
    "\<bar>of_nat m - \<bar>?x\<bar>\<bar> \<le> 1 / 2"
    using toFixed0_nearest [of ?x] by blast
  have sign: "?x < 0 \<longleftrightarrow> ?d < 0"
    using p by (simp add: mult_less_0_iff divide_less_0_iff)
  have "dropoff (stepOf steps events i) = ?d"
    using \<open>0 < i\<close> by (simp add: stepOf_def Let_def)
  moreover have "dropoffPct (stepOf steps events i) = toFixed0 ?x @ ''%''"
    using \<open>0 < i\<close> p by (simp add: stepOf_def Let_def)
  ultimately show ?thesis
    using m sign by (intro exI [of _ m]) simp
qed

text \<open>
  Claim C1. For every list of events and every ordered list of steps the funnel is built
  without an exception and has one entry per step; the entry of step \<open>i\<close> reports the
  number of distinct users of the step's event; for \<open>i > 0\<close> its drop-off is the
  unique-user count of step \<open>i - 1\<close> minus that of step \<open>i\<close>, as an integer that is
  negative when step \<open>i\<close> has more users (nothing is clamped); its drop-off percentage
  is the empty string when step \<open>i - 1\<close> has no user, and otherwise the decimal rendering
  (sign, digits, a percent sign) of an integer within one half of
  \<open>dropoff / usersAtStep (i - 1) * 100\<close>. In the scenario of the specification the funnel
  over started, completed reports 2 and 1 users, a drop-off of 1 and 50 percent.
\<close>

theorem buildFunnel_dropoff:
  "(\<exists>funnel. buildFunnel steps events = Inr funnel \<and> length funnel = length steps \<and>
     (\<forall>i < length steps. fs_users (funnel ! i) = usersAtStep steps events i) \<and>
     (\<forall>i. 0 < i \<and> i < length steps \<longrightarrow>
        dropoff (funnel ! i) = int (usersAtStep steps events (i - 1)) - int (usersAtStep steps events i) \<and>
        (usersAtStep steps events (i - 1) = 0 \<longrightarrow> dropoffPct (funnel ! i) = '''') \<and>
        (0 < usersAtStep steps events (i - 1) \<longrightarrow>
           (\<exists>m. dropoffPct (funnel ! i) =
                  (if dropoff (funnel ! i) < 0 then ''-'' else '''') @ show_nat m @ ''%'' \<and>
                \<bar>of_nat m - \<bar>of_int (dropoff (funnel ! i))
                                / of_nat (usersAtStep steps events (i - 1)) * 100 :: rat\<bar>\<bar> \<le> 1 / 2)))) \<and>
   (\<exists>started completed. buildFunnel scenario_steps scenario_events = Inr [started, completed] \<and>
      fs_users started = 2 \<and> fs_users completed = 1 \<and>
      dropoff completed = 1 \<and> dropoffPct completed = ''50%'')"
proof -
  let ?f = "map (stepOf steps events) [0..<length steps]"
  have nth: "?f ! i = stepOf steps events i" if "i < length steps" for i
    using that by simp
  have "buildFunnel steps events = Inr ?f"
    by (rule buildFunnel_eq)
  moreover have "length ?f = length steps" by simp
  moreover have "\<forall>i < length steps. fs_users (?f ! i) = usersAtStep steps events i"
    by (simp add: stepOf_def Let_def)
  moreover have "\<forall>i. 0 < i \<and> i < length steps \<longrightarrow>
        dropoff (?f ! i) = int (usersAtStep steps events (i - 1)) - int (usersAtStep steps events i) \<and>
        (usersAtStep steps events (i - 1) = 0 \<longrightarrow> dropoffPct (?f ! i) = '''') \<and>
        (0 < usersAtStep steps events (i - 1) \<longrightarrow>
           (\<exists>m. dropoffPct (?f ! i) =
                  (if dropoff (?f ! i) < 0 then ''-'' else '''') @ show_nat m @ ''%'' \<and>
                \<bar>of_nat m - \<bar>of_int (dropoff (?f ! i))
                                / of_nat (usersAtStep steps events (i - 1)) * 100 :: rat\<bar>\<bar> \<le> 1 / 2))"
  proof (intro allI impI, elim conjE)
    fix i assume i: "0 < i" "i < length steps"
    show "dropoff (?f ! i) = int (usersAtStep steps events (i - 1)) - int (usersAtStep steps events i) \<and>
        (usersAtStep steps events (i - 1) = 0 \<longrightarrow> dropoffPct (?f ! i) = '''') \<and>
        (0 < usersAtStep steps events (i - 1) \<longrightarrow>
           (\<exists>m. dropoffPct (?f ! i) =
                  (if dropoff (?f ! i) < 0 then ''-'' else '''') @ show_nat m @ ''%'' \<and>
                \<bar>of_nat m - \<bar>of_int (dropoff (?f ! i))
                                / of_nat (usersAtStep steps events (i - 1)) * 100 :: rat\<bar>\<bar> \<le> 1 / 2))"
      unfolding nth [OF i(2)]
      using stepOf_pct [OF i(1)] i(1) by (simp add: stepOf_def Let_def)
  qed
  ultimately have general: "\<exists>funnel. buildFunnel steps events = Inr funnel \<and> length funnel = length steps \<and>
     (\<forall>i < length steps. fs_users (funnel ! i) = usersAtStep steps events i) \<and>
     (\<forall>i. 0 < i \<and> i < length steps \<longrightarrow>
        dropoff (funnel ! i) = int (usersAtStep steps events (i - 1)) - int (usersAtStep steps events i) \<and>
        (usersAtStep steps events (i - 1) = 0 \<longrightarrow> dropoffPct (funnel ! i) = '''') \<and>
        (0 < usersAtStep steps events (i - 1) \<longrightarrow>
           (\<exists>m. dropoffPct (funnel ! i) =
                  (if dropoff (funnel ! i) < 0 then ''-'' else '''') @ show_nat m @ ''%'' \<and>
                \<bar>of_nat m - \<bar>of_int (dropoff (funnel ! i))
                                / of_nat (usersAtStep steps events (i - 1)) * 100 :: rat\<bar>\<bar> \<le> 1 / 2)))"
    by blast
  have "\<exists>started completed. buildFunnel scenario_steps scenario_events = Inr [started, completed] \<and>
      fs_users started = 2 \<and> fs_users completed = 1 \<and>
      dropoff completed = 1 \<and> dropoffPct completed = ''50%''"
    unfolding scenario_value by simp
  with general show ?thesis by blast
qed

theorem buildFunnel_dropoff_witness:
  "0 < (1::nat) \<and> 1 < length scenario_steps \<and>
   usersAtStep scenario_steps scenario_events 0 = 2 \<and>
   usersAtStep scenario_steps scenario_events 1 = 1 \<and>
   (\<exists>funnel. buildFunnel scenario_steps scenario_events = Inr funnel \<and>
      dropoff (funnel ! 1) = 2 - 1 \<and> dropoffPct (funnel ! 1) \<noteq> '''')"
proof -
  from buildFunnel_dropoff [of scenario_steps scenario_events]
  obtain funnel where f: "buildFunnel scenario_steps scenario_events = Inr funnel"
    and users: "\<forall>i < length scenario_steps.
                  fs_users (funnel ! i) = usersAtStep scenario_steps scenario_events i"
    and drop: "\<forall>i. 0 < i \<and> i < length scenario_steps \<longrightarrow>
        dropoff (funnel ! i) = int (usersAtStep scenario_steps scenario_events (i - 1))
                               - int (usersAtStep scenario_steps scenario_events i)"
    by blast
  have len: "length scenario_steps = 2" by (simp add: scenario_steps_def)
  have u0: "usersAtStep scenario_steps scenario_events 0 = 2"
    using users [rule_format, of 0] f len unfolding scenario_value by auto
  have u1: "usersAtStep scenario_steps scenario_events 1 = 1"
    using users [rule_format, of 1] f len unfolding scenario_value by auto
  have d: "dropoff (funnel ! 1) = 2 - 1"
    using drop [rule_format, of 1] len u0 u1 by simp
  have "dropoffPct (funnel ! 1) \<noteq> ''''"
    using f unfolding scenario_value by auto
  with f u0 u1 d len show ?thesis by auto
qed

lemma scanned_Suc: "scanned funnel (Suc n) = scanStep funnel (scanned funnel n) n"
  by (simp add: scanned_def)

lemma scan_inv_step:
  assumes inv: "scan_inv funnel n b" and n: "n < length funnel"
  shows "scan_inv funnel (Suc n) (scanStep funnel b n)"
proof (cases "transition funnel n \<and> biggestDropoffPct b < pctAt funnel n")
  case True
  then have tr: "transition funnel n" and gt: "biggestDropoffPct b < pctAt funnel n" by auto
  have nonneg: "0 \<le> biggestDropoffPct b"
    using inv by (auto simp: scan_inv_def split: option.splits)
  have pos: "0 < pctAt funnel n" using gt nonneg by simp
  then have nz: "dropoff (funnel ! n) \<noteq> 0" by (auto simp: pctAt_def)
  have upd: "scanStep funnel b n =
      \<lparr>biggestDropoff = transitionLabel funnel n, biggestDropoffPct = pctAt funnel n,
       biggestIndex = Some n\<rparr>"
    using tr gt nz by (simp add: scanStep_def transition_def pctAt_def Let_def)
  have below: "\<forall>i < n. transition funnel i \<longrightarrow> pctAt funnel i < pctAt funnel n"
    using inv gt by (fastforce simp: scan_inv_def)
  show ?thesis
    unfolding upd scan_inv_def using tr pos below
    by (auto simp: less_Suc_eq)
next
  case False
  have same: "scanStep funnel b n = b"
    using False n by (auto simp: scanStep_def transition_def pctAt_def Let_def)
  have nonneg: "0 \<le> biggestDropoffPct b"
    using inv by (auto simp: scan_inv_def split: option.splits)
  have le: "transition funnel n \<longrightarrow> pctAt funnel n \<le> biggestDropoffPct b"
    using False by auto
  show ?thesis
    unfolding same using inv le
    by (auto simp: scan_inv_def less_Suc_eq split: option.splits)
qed

lemma scan_inv_scanned: "n \<le> length funnel \<Longrightarrow> scan_inv funnel n (scanned funnel n)"
proof (induction n)
  case 0
  then show ?case by (simp add: scanned_def scan_inv_def)
next
  case (Suc n)
  then show ?case by (simp add: scanned_Suc scan_inv_step)
qed

lemma findBiggestDropoff_inv: "scan_inv funnel (length funnel) (findBiggestDropoff funnel)"
  using scan_inv_scanned [of "length funnel" funnel]
  by (simp add: scanned_def findBiggestDropoff_def)

lemma all_complete_value:
  "buildFunnel scenario_steps all_complete_events = Inr all_complete_funnel"
  by code_simp

lemma counts_value:
  "findBiggestDropoff funnel_of_counts =
     \<lparr>biggestDropoff = ''Started '' @ arrow @ '' Input'', biggestDropoffPct = 75 / 2,
      biggestIndex = Some 3\<rparr>"
  by code_simp

lemma all_complete_biggest:
  "findBiggestDropoff all_complete_funnel =
     \<lparr>biggestDropoff = '''', biggestDropoffPct = 0, biggestIndex = None\<rparr>"
  by code_simp

text \<open>
  Claim C8, as the code has it. The scan keeps a transition only when its percentage
  (the exact quotient \<open>dropoff / users of the previous step * 100\<close>, not the rounded
  string) is strictly above the running maximum, which starts at 0. So when some
  transition has a positive percentage, the reported one is the first transition of
  maximal percentage; when none has, nothing is reported: the label stays empty and the
  percentage 0.
\<close>

theorem findBiggestDropoff_first_maximum:
  "(case biggestIndex (findBiggestDropoff funnel) of
      None \<Rightarrow>
        (\<forall>i. transition funnel i \<longrightarrow> pctAt funnel i \<le> 0) \<and>
        biggestDropoff (findBiggestDropoff funnel) = [] \<and>
        biggestDropoffPct (findBiggestDropoff funnel) = 0
    | Some j \<Rightarrow>
        transition funnel j \<and> 0 < pctAt funnel j \<and>
        biggestDropoff (findBiggestDropoff funnel) = transitionLabel funnel j \<and>
        biggestDropoffPct (findBiggestDropoff funnel) = pctAt funnel j \<and>
        (\<forall>i. transition funnel i \<longrightarrow> pctAt funnel i \<le> pctAt funnel j) \<and>
        (\<forall>i < j. transition funnel i \<longrightarrow> pctAt funnel i < pctAt funnel j))"
proof -
  have len: "i < length funnel" if "transition funnel i" for i
    using that by (simp add: transition_def)
  show ?thesis
    using findBiggestDropoff_inv [of funnel] len
    by (auto simp: scan_inv_def split: option.splits)
qed

theorem findBiggestDropoff_first_maximum_witness:
  "transition funnel_of_counts 1 \<and> (1::nat) < 3 \<and>
   biggestIndex (findBiggestDropoff funnel_of_counts) = Some 3 \<and>
   transition funnel_of_counts 3 \<and>
   pctAt funnel_of_counts 1 < pctAt funnel_of_counts 3 \<and>
   biggestDropoff (findBiggestDropoff funnel_of_counts) = ''Started '' @ arrow @ '' Input''"
proof -
  have t1: "transition funnel_of_counts 1"
    by (simp add: transition_def funnel_of_counts_def)
  have idx: "biggestIndex (findBiggestDropoff funnel_of_counts) = Some 3"
    by (simp add: counts_value)
  from findBiggestDropoff_first_maximum [of funnel_of_counts]
  have "transition funnel_of_counts 3 \<and>
        (\<forall>i < 3. transition funnel_of_counts i \<longrightarrow> pctAt funnel_of_counts i < pctAt funnel_of_counts 3)"
    unfolding idx by simp
  with t1 idx show ?thesis by (simp add: counts_value)
qed

theorem biggestDropoff_maximum_counterexample:
  "buildFunnel scenario_steps all_complete_events = Inr all_complete_funnel \<and>
   transition all_complete_funnel 1 \<and> length all_complete_funnel = 2 \<and>
   biggestIndex (findBiggestDropoff all_complete_funnel) = None \<and>
   biggestDropoff (findBiggestDropoff all_complete_funnel) = []"
  by (simp add: all_complete_value all_complete_biggest)
     (simp add: transition_def all_complete_funnel_def)

section \<open>Acquisition\<close>

lemma classifyStep_new:
  "set (trulyNewUsers (classifyStep a e)) =
     set (trulyNewUsers a) \<union> (if getProp is_new_user e = Some True then {firebase_uid e} else {})"
  by (simp add: classifyStep_def set_set_add)

lemma classifyStep_returning:
  "set (returningDeviceUsers (classifyStep a e)) =
     set (returningDeviceUsers a) \<union>
       (if getProp is_new_user e \<noteq> Some True \<and> getProp is_returning_device e = Some True
        then {firebase_uid e} else {})"
  by (simp add: classifyStep_def set_set_add)

lemma classify_fold_new:
  "set (trulyNewUsers (foldl classifyStep a es)) =
     set (trulyNewUsers a) \<union> firebase_uid ` {e \<in> set es. getProp is_new_user e = Some True}"
  by (induction es arbitrary: a) (auto simp: classifyStep_new)

lemma classify_fold_returning:
  "set (returningDeviceUsers (foldl classifyStep a es)) =
     set (returningDeviceUsers a) \<union>
       firebase_uid ` {e \<in> set es. getProp is_new_user e \<noteq> Some True \<and>
                                   getProp is_returning_device e = Some True}"
  by (induction es arbitrary: a) (auto simp: classifyStep_returning)

lemma conflicting_value:
  "classifyNewVsReturning conflicting_events =
     \<lparr>trulyNewUsers = [Some ''u1''], returningDeviceUsers = [Some ''u1'']\<rparr>"
  by code_simp

text \<open>
  Claim C7, as the code has it. Every marker event is looked at on its own: it adds its
  user to the truly new users when its new-flag is \<^verbatim>\<open>true\<close>, otherwise to the
  returning-device users when its returning-flag is \<^verbatim>\<open>true\<close>, so one event feeds at most
  one class. Nothing is remembered between events: a user is truly new exactly when
  some marker event of theirs carries the new-flag, and returning-device exactly when
  some marker event of theirs carries the returning-flag without the new-flag.
\<close>

theorem classifyNewVsReturning_per_event:
  "set (trulyNewUsers (classifyNewVsReturning events)) =
     firebase_uid ` {e \<in> set events. event_name e = ''auth_anonymous_selected'' \<and>
                                     getProp is_new_user e = Some True} \<and>
   set (returningDeviceUsers (classifyNewVsReturning events)) =
     firebase_uid ` {e \<in> set events. event_name e = ''auth_anonymous_selected'' \<and>
                                     getProp is_new_user e \<noteq> Some True \<and>
                                     getProp is_returning_device e = Some True}"
  unfolding classifyNewVsReturning_def classify_fold_new classify_fold_returning
  by auto

theorem classifyNewVsReturning_per_event_witness:
  "set (trulyNewUsers (classifyNewVsReturning conflicting_events)) = {Some ''u1''} \<and>
   marker ''u1'' None (Some True) \<in> set conflicting_events \<and>
   Some ''u1'' \<in> firebase_uid ` {e \<in> set conflicting_events.
       event_name e = ''auth_anonymous_selected'' \<and> getProp is_new_user e \<noteq> Some True \<and>
       getProp is_returning_device e = Some True}"
proof -
  have "set (returningDeviceUsers (classifyNewVsReturning conflicting_events)) = {Some ''u1''}"
    by (simp add: conflicting_value)
  then have "Some ''u1'' \<in> firebase_uid ` {e \<in> set conflicting_events.
       event_name e = ''auth_anonymous_selected'' \<and> getProp is_new_user e \<noteq> Some True \<and>
       getProp is_returning_device e = Some True}"
    using classifyNewVsReturning_per_event [of conflicting_events] by simp
  then show ?thesis
    by (simp add: conflicting_value) (simp add: conflicting_events_def)
qed

theorem classifyNewVsReturning_exclusive_counterexample:
  "getProp is_new_user (conflicting_events ! 0) = Some True \<and>
   getProp is_returning_device (conflicting_events ! 0) = None \<and>
   firebase_uid (conflicting_events ! 0) = Some ''u1'' \<and>
   Some ''u1'' \<in> set (trulyNewUsers (classifyNewVsReturning conflicting_events)) \<and>
   Some ''u1'' \<in> set (returningDeviceUsers (classifyNewVsReturning conflicting_events))"
  by (simp add: conflicting_value) (simp add: conflicting_events_def marker_def getProp_def)

section \<open>Daily buckets\<close>

lemma forEach_snoc:
  "forEach f s (xs @ [x]) = (case forEach f s xs of Inl err \<Rightarrow> Inl err | Inr s' \<Rightarrow> f s' x)"
  by (induction xs arbitrary: s) (auto split: sum.splits)

lemma forEach_error:
  "x \<in> set xs \<Longrightarrow> (\<And>s. f s x = Inl err) \<Longrightarrow> (\<And>s y err'. f s y = Inl err' \<Longrightarrow> err' = err) \<Longrightarrow>
   forEach f s xs = Inl err"
proof (induction xs arbitrary: s)
  case Nil
  then show ?case by simp
next
  case (Cons y ys)
  show ?case
  proof (cases "f s y")
    case (Inl e)
    then show ?thesis using Cons.prems(3) by auto
  next
    case (Inr s')
    then have "x \<noteq> y" using Cons.prems(2) by auto
    then have "x \<in> set ys" using Cons.prems(1) by simp
    then show ?thesis using Inr Cons.IH Cons.prems by simp
  qed
qed

lemma dailyStep_error: "dailyStep m e = Inl err \<Longrightarrow> err = TypeError"
  by (auto simp: dailyStep_def Let_def split: option.splits)

lemma map_of_dailyStep:
  assumes "received_at e \<noteq> None"
  shows "\<exists>m'. dailyStep m e = Inr m' \<and>
           (\<forall>d. map_of m' d =
              (if d = dayOf e
               then Some \<lparr>bk_users = set_add (firebase_uid e)
                              (case map_of m d of None \<Rightarrow> [] | Some b \<Rightarrow> bk_users b),
                          bk_events = Suc (case map_of m d of None \<Rightarrow> 0 | Some b \<Rightarrow> bk_events b)\<rparr>
               else map_of m d))"
  using assms
  by (auto simp: dailyStep_def dayOf_def Let_def update_conv' split: option.splits)

lemma dailyMap_buckets:
  assumes "\<forall>e \<in> set events. received_at e \<noteq> None"
  shows "\<exists>m. dailyMap events = Inr m \<and> map_of m = bucketsOf events"
  using assms
proof (induction events rule: rev_induct)
  case Nil
  then show ?case by (auto simp: dailyMap_def bucketsOf_def onDay_def)
next
  case (snoc e es)
  then obtain m where m: "dailyMap es = Inr m" "map_of m = bucketsOf es" by auto
  have e: "received_at e \<noteq> None" using snoc.prems by simp
  obtain m' where m': "dailyStep m e = Inr m'"
    and look: "\<And>d. map_of m' d =
              (if d = dayOf e
               then Some \<lparr>bk_users = set_add (firebase_uid e)
                              (case map_of m d of None \<Rightarrow> [] | Some b \<Rightarrow> bk_users b),
                          bk_events = Suc (case map_of m d of None \<Rightarrow> 0 | Some b \<Rightarrow> bk_events b)\<rparr>
               else map_of m d)"
    using map_of_dailyStep [OF e, of m] by blast
  have "dailyMap (es @ [e]) = Inr m'"
    using m(1) m' by (simp add: dailyMap_def forEach_snoc)
  moreover have "map_of m' = bucketsOf (es @ [e])"
  proof
    fix d
    show "map_of m' d = bucketsOf (es @ [e]) d"
      unfolding look m(2)
      by (simp add: bucketsOf_def onDay_def new_Set_snoc new_Set_Nil)
  qed
  ultimately show ?case by blast
qed

lemma dailyMap_missing_timestamp:
  assumes "e \<in> set events" and "received_at e = None"
  shows "dailyMap events = Inl TypeError"
  unfolding dailyMap_def
proof (rule forEach_error [OF assms(1)])
  show "dailyStep s e = Inl TypeError" for s
    using assms(2) by (simp add: dailyStep_def)
  show "err' = TypeError" if "dailyStep s y = Inl err'" for s y err'
    using that by (rule dailyStep_error)
qed

lemma no_uid_value:
  "dailyMap [no_uid_event] = Inr [(''2024-03-01'', \<lparr>bk_users = [None], bk_events = 1\<rparr>)]"
  by code_simp

lemma no_timestamp_value:
  "dailyMap [no_uid_event, no_timestamp_event, no_uid_event] = Inl TypeError"
  by code_simp

text \<open>
  Claim C3, as the code has it. The daily loop validates nothing. A record without a
  timestamp makes the whole pass fail with a TypeError. When every record has a
  timestamp, every record is aggregated, also one without a user identifier: each record's
  day has a bucket, whose event count is the number of records of that day and whose user
  set is the set of the user identifiers of those records, the missing identifier
  counting as one more user.
\<close>

theorem dailyMap_counts_every_record:
  "((\<exists>e \<in> set events. received_at e = None) \<longrightarrow> dailyMap events = Inl TypeError) \<and>
   ((\<forall>e \<in> set events. received_at e \<noteq> None) \<longrightarrow>
      (\<exists>m. dailyMap events = Inr m \<and>
         (\<forall>e \<in> set events. \<exists>b. map_of m (dayOf e) = Some b \<and>
             firebase_uid e \<in> set (bk_users b) \<and>
             set (bk_users b) = firebase_uid ` set (onDay (dayOf e) events) \<and>
             bk_events b = length (onDay (dayOf e) events))))"
proof (intro conjI impI)
  assume "\<exists>e \<in> set events. received_at e = None"
  then show "dailyMap events = Inl TypeError"
    using dailyMap_missing_timestamp by blast
next
  assume "\<forall>e \<in> set events. received_at e \<noteq> None"
  then obtain m where m: "dailyMap events = Inr m" "map_of m = bucketsOf events"
    using dailyMap_buckets by blast
  have "\<exists>b. map_of m (dayOf e) = Some b \<and> firebase_uid e \<in> set (bk_users b) \<and>
             set (bk_users b) = firebase_uid ` set (onDay (dayOf e) events) \<and>
             bk_events b = length (onDay (dayOf e) events)" if "e \<in> set events" for e
  proof -
    have mem: "e \<in> set (onDay (dayOf e) events)" using that by (simp add: onDay_def)
    then have "onDay (dayOf e) events \<noteq> []" by auto
    then show ?thesis
      using mem by (simp add: m(2) bucketsOf_def set_new_Set)
  qed
  with m(1) show "\<exists>m. dailyMap events = Inr m \<and>
         (\<forall>e \<in> set events. \<exists>b. map_of m (dayOf e) = Some b \<and>
             firebase_uid e \<in> set (bk_users b) \<and>
             set (bk_users b) = firebase_uid ` set (onDay (dayOf e) events) \<and>
             bk_events b = length (onDay (dayOf e) events))"
    by blast
qed

theorem dailyMap_counts_every_record_witness:
  "(\<exists>e \<in> set [no_uid_event, no_timestamp_event, no_uid_event]. received_at e = None) \<and>
   dailyMap [no_uid_event, no_timestamp_event, no_uid_event] = Inl TypeError \<and>
   list_all (\<lambda>e. received_at e \<noteq> None) [no_uid_event] \<and>
   (\<exists>m b. dailyMap [no_uid_event] = Inr m \<and> map_of m (dayOf no_uid_event) = Some b \<and>
          None \<in> set (bk_users b) \<and> bk_events b = 1)"
proof -
  have h1: "\<exists>e \<in> set [no_uid_event, no_timestamp_event, no_uid_event]. received_at e = None"
    by (simp add: no_timestamp_event_def)
  have h2: "\<forall>e \<in> set [no_uid_event]. received_at e \<noteq> None"
    by (simp add: no_uid_event_def)
  have c1: "dailyMap [no_uid_event, no_timestamp_event, no_uid_event] = Inl TypeError"
    using dailyMap_counts_every_record [of "[no_uid_event, no_timestamp_event, no_uid_event]"] h1
    by blast
  from dailyMap_counts_every_record [of "[no_uid_event]"] h2
  obtain m b where "dailyMap [no_uid_event] = Inr m" "map_of m (dayOf no_uid_event) = Some b"
    "firebase_uid no_uid_event \<in> set (bk_users b)"
    "bk_events b = length (onDay (dayOf no_uid_event) [no_uid_event])"
    by auto
  then have "\<exists>m b. dailyMap [no_uid_event] = Inr m \<and> map_of m (dayOf no_uid_event) = Some b \<and>
          None \<in> set (bk_users b) \<and> bk_events b = 1"
    by (auto simp: onDay_def no_uid_event_def)
  moreover have "list_all (\<lambda>e. received_at e \<noteq> None) [no_uid_event]"
    using h2 by (simp add: list_all_iff)
  ultimately show ?thesis using h1 c1 by blast
qed

theorem malformed_record_dropped_counterexample:
  "firebase_uid no_uid_event = None \<and>
   dailyMap [no_uid_event] = Inr [(''2024-03-01'', \<lparr>bk_users = [None], bk_events = 1\<rparr>)] \<and>
   received_at no_timestamp_event = None \<and>
   dailyMap [no_uid_event, no_timestamp_event, no_uid_event] = Inl TypeError"
  by (simp add: no_uid_value no_timestamp_value) (simp add: no_uid_event_def no_timestamp_event_def)

section \<open>Feature adoption\<close>

lemma set_update_subset: "set (AList.update k v al) \<subseteq> insert (k, v) (set al)"
  by (induction al) auto

lemma set_add_nonempty: "set_add x xs \<noteq> []"
  by (auto simp: set_add_def)

lemma feature_inv_step:
  assumes "feature_inv events m" and "firebase_uid e \<in> firebase_uid ` set events"
  shows "feature_inv events (featureStep m e)"
proof -
  define f where "f = (case map_of m (featureOf e) of
                 None \<Rightarrow> \<lparr>bk_users = [], bk_events = 0\<rparr> | Some d \<Rightarrow> d)"
  have f: "distinct (bk_users f) \<and> set (bk_users f) \<subseteq> firebase_uid ` set events"
  proof (cases "map_of m (featureOf e)")
    case None
    then show ?thesis by (simp add: f_def)
  next
    case (Some d)
    then have "(featureOf e, d) \<in> set m" by (rule map_of_SomeD)
    then show ?thesis using assms(1) Some by (auto simp: f_def feature_inv_def)
  qed
  have new: "bk_users b \<noteq> [] \<and> distinct (bk_users b) \<and> set (bk_users b) \<subseteq> firebase_uid ` set events"
    if "b = \<lparr>bk_users = set_add (firebase_uid e) (bk_users f), bk_events = Suc (bk_events f)\<rparr>" for b
    using f assms(2) that by (auto simp: set_set_add distinct_set_add set_add_nonempty)
  have "featureStep m e = AList.update (featureOf e)
          \<lparr>bk_users = set_add (firebase_uid e) (bk_users f), bk_events = Suc (bk_events f)\<rparr> m"
    by (simp add: featureStep_def f_def Let_def)
  then show ?thesis
    using set_update_subset [of "featureOf e"
            "\<lparr>bk_users = set_add (firebase_uid e) (bk_users f), bk_events = Suc (bk_events f)\<rparr>" m]
      assms(1) new
    unfolding feature_inv_def by fastforce
qed

lemma feature_inv_fold:
  "feature_inv events m \<Longrightarrow> set es \<subseteq> set events \<Longrightarrow> feature_inv events (foldl featureStep m es)"
proof (induction es arbitrary: m)
  case Nil
  then show ?case by simp
next
  case (Cons e es)
  then show ?case by (simp add: feature_inv_step)
qed

lemma feature_inv_featureMap: "feature_inv events (featureMap events)"
  unfolding featureMap_def
  by (rule feature_inv_fold) (simp_all add: feature_inv_def)

lemma length_allUsers: "length (allUsers events) = card (firebase_uid ` set events)"
  by (simp add: allUsers_def length_new_Set)

lemma rate_bounds:
  fixes u a :: nat
  assumes "0 < u" and "u \<le> a"
  shows "\<exists>n::nat. Math_round (jsmul (jsdiv (of_nat u) (of_nat a)) 100) = Num (of_nat n) \<and> n \<le> 100"
proof -
  let ?x = "(of_nat u / of_nat a) * 100 :: rat"
  have a: "0 < a" using assms by simp
  have q: "0 \<le> (of_nat u / of_nat a :: rat)" "(of_nat u / of_nat a :: rat) \<le> 1"
    using assms a by simp_all
  have "?x \<le> 1 * 100" using q(2) by (intro mult_right_mono) simp_all
  with q(1) have x: "0 \<le> ?x" "?x \<le> 100" by simp_all
  have lo: "0 \<le> \<lfloor>?x + 1 / 2\<rfloor>" using x by simp
  have "?x + 1 / 2 < 101" using x by simp
  then have hi: "\<lfloor>?x + 1 / 2\<rfloor> \<le> 100"
    by (simp add: floor_le_iff)
  have "Math_round (jsmul (jsdiv (of_nat u) (of_nat a)) 100) = Num (of_int \<lfloor>?x + 1 / 2\<rfloor>)"
    using a by (simp add: jsdiv_def)
  also have "\<dots> = Num (of_nat (nat \<lfloor>?x + 1 / 2\<rfloor>))" using lo by simp
  finally have eq: "Math_round (jsmul (jsdiv (of_nat u) (of_nat a)) 100) =
      Num (of_nat (nat \<lfloor>?x + 1 / 2\<rfloor>))" .
  have "nat \<lfloor>?x + 1 / 2\<rfloor> \<le> 100" using hi by linarith
  with eq show ?thesis by blast
qed

lemma two_feature_value:
  "featureArray two_feature_events =
     [\<lparr>fa_feature = ''Basket'', fa_users = 2, fa_events = 2, adoption_rate = Num 67\<rparr>,
      \<lparr>fa_feature = ''Chat'', fa_users = 1, fa_events = 1, adoption_rate = Num 33\<rparr>]"
  by code_simp

text \<open>
  Claim C10. For a non-empty list of events, every row of the feature-adoption table has
  between 1 and as many users as the input has distinct users, the number of all users
  is not zero, and the adoption rate is a natural number not above 100: the unguarded
  division never yields \<open>NaN\<close> or an infinity.
\<close>

theorem featureArray_adoption_rate:
  assumes "events \<noteq> []" and "r \<in> set (featureArray events)"
  shows "0 < length (allUsers events) \<and> 0 < fa_users r \<and> fa_users r \<le> length (allUsers events) \<and>
         (\<exists>n::nat. adoption_rate r = Num (of_nat n) \<and> n \<le> 100)"
proof -
  from assms(2) obtain k b where kb: "(k, b) \<in> set (featureMap events)"
    and r: "r = featureRow events (k, b)"
    by (auto simp: featureArray_def)
  have b: "bk_users b \<noteq> []" "distinct (bk_users b)" "set (bk_users b) \<subseteq> firebase_uid ` set events"
    using feature_inv_featureMap [of events] kb by (auto simp: feature_inv_def)
  have pos: "0 < length (bk_users b)" using b(1) by simp
  have "length (bk_users b) = card (set (bk_users b))"
    using b(2) by (simp add: distinct_card)
  also have "\<dots> \<le> card (firebase_uid ` set events)"
    using b(3) by (intro card_mono) simp_all
  finally have le: "length (bk_users b) \<le> length (allUsers events)"
    by (simp add: length_allUsers)
  have all: "0 < length (allUsers events)" using pos le by linarith
  have users: "fa_users r = length (bk_users b)" by (simp add: r featureRow_def)
  have rate: "adoption_rate r =
      Math_round (jsmul (jsdiv (of_nat (length (bk_users b))) (of_nat (length (allUsers events)))) 100)"
    by (simp add: r featureRow_def)
  show ?thesis
    unfolding users rate using all pos le rate_bounds [OF pos le] by simp
qed

theorem featureArray_adoption_rate_witness:
  "two_feature_events \<noteq> [] \<and>
   \<lparr>fa_feature = ''Chat'', fa_users = 1, fa_events = 1, adoption_rate = Num 33\<rparr>
      \<in> set (featureArray two_feature_events) \<and>
   0 < length (allUsers two_feature_events) \<and>
   (\<exists>n::nat. Num 33 = Num (of_nat n) \<and> n \<le> 100)"
proof -
  have h1: "two_feature_events \<noteq> []" by (simp add: two_feature_events_def)
  have h2: "\<lparr>fa_feature = ''Chat'', fa_users = 1, fa_events = 1, adoption_rate = Num 33\<rparr>
      \<in> set (featureArray two_feature_events)"
    by (simp add: two_feature_value)
  show ?thesis
    using featureArray_adoption_rate [OF h1 h2] h1 h2 by simp
qed

section \<open>User segments\<close>

lemma update_map_keys:
  "distinct ks \<Longrightarrow>
   AList.update u v (map (\<lambda>k. (k, g k)) ks) = map (\<lambda>k. (k, (g(u := v)) k)) (set_add u ks)"
proof (induction ks)
  case Nil
  then show ?case by (simp add: set_add_def)
next
  case (Cons k ks)
  show ?case
  proof (cases "k = u")
    case True
    then have "u \<notin> set ks" using Cons.prems by simp
    then have "map (\<lambda>k. (k, (g(u := v)) k)) ks = map (\<lambda>k. (k, g k)) ks" by auto
    then show ?thesis using True by (simp add: set_add_def)
  next
    case False
    then show ?thesis using Cons by (auto simp: set_add_def)
  qed
qed

lemma map_of_map_keys:
  "map_of (map (\<lambda>k. (k, g k)) ks) u = (if u \<in> set ks then Some (g u) else None)"
  by (induction ks) auto

lemma eventsOf_unseen: "u \<notin> firebase_uid ` set events \<Longrightarrow> eventsOf events u = 0"
  by (auto simp: eventsOf_def filter_empty_conv)

lemma savingsOf_unseen: "u \<notin> firebase_uid ` set events \<Longrightarrow> savingsOf events u = Num 0"
proof -
  assume "u \<notin> firebase_uid ` set events"
  then have "filter (\<lambda>e. firebase_uid e = u) events = []"
    by (auto simp: filter_empty_conv)
  then show ?thesis by (simp add: savingsOf_def)
qed

lemma activityOf_snoc:
  "activityOf (es @ [e]) =
     (activityOf es)(firebase_uid e :=
        \<lparr>ua_events = Suc (eventsOf es (firebase_uid e)),
         ua_savings = add_savings (savingsOf es (firebase_uid e)) e\<rparr>)"
  by (rule ext) (simp add: activityOf_def eventsOf_def savingsOf_def)

lemma userActivity_eq:
  "userActivity events =
     map (\<lambda>u. (u, activityOf events u)) (new_Set (map firebase_uid events))"
proof (induction events rule: rev_induct)
  case Nil
  then show ?case by (simp add: userActivity_def new_Set_Nil)
next
  case (snoc e es)
  let ?ks = "new_Set (map firebase_uid es)"
  let ?u = "firebase_uid e"
  have user: "(case map_of (map (\<lambda>u. (u, activityOf es u)) ?ks) ?u of
                 None \<Rightarrow> \<lparr>ua_events = 0, ua_savings = Num 0\<rparr> | Some a \<Rightarrow> a) = activityOf es ?u"
    by (simp add: map_of_map_keys set_new_Set activityOf_def eventsOf_unseen savingsOf_unseen)
  have "userActivity (es @ [e]) = activityStep (userActivity es) e"
    by (simp add: userActivity_def)
  also have "\<dots> = AList.update ?u
       \<lparr>ua_events = Suc (eventsOf es ?u), ua_savings = add_savings (savingsOf es ?u) e\<rparr>
       (map (\<lambda>u. (u, activityOf es u)) ?ks)"
    unfolding snoc.IH activityStep_def Let_def user
    by (simp add: activityOf_def)
  also have "\<dots> = map (\<lambda>u. (u, activityOf (es @ [e]) u)) (set_add ?u ?ks)"
    unfolding activityOf_snoc
    by (rule update_map_keys) (rule distinct_new_Set)
  finally show ?case by (simp add: new_Set_snoc)
qed

lemma segmentIndex_less: "segmentIndex n < 4"
  by (simp add: segmentIndex_def)

lemma jsadd_Num_zero [simp]: "jsadd (jsadd x a) b = jsadd x (a + b)"
  by (cases x) simp_all

lemma addToSegment_length: "length (addToSegment segs d) = length segs"
  by (simp add: addToSegment_def Let_def)

lemma addToSegment_nth:
  assumes "length segs = 4" and "k < 4"
  shows "addToSegment segs d ! k =
     (if segmentIndex (ua_events d) = k
      then (segs ! k)\<lparr>seg_users := Suc (seg_users (segs ! k)),
             avgEvents := jsadd (avgEvents (segs ! k)) (of_nat (ua_events d)),
             avgSavings := jsplus (avgSavings (segs ! k)) (ua_savings d)\<rparr>
      else segs ! k)"
  using assms segmentIndex_less [of "ua_events d"]
  by (simp add: addToSegment_def Let_def nth_list_update)

lemma accumulate_nth:
  assumes "length segs = 4" and "k < 4"
  shows "length (foldl addToSegment segs ds) = 4 \<and>
     segment (foldl addToSegment segs ds ! k) = segment (segs ! k) \<and>
     seg_users (foldl addToSegment segs ds ! k) = seg_users (segs ! k) + length (inSegment k ds) \<and>
     avgEvents (foldl addToSegment segs ds ! k) =
       jsadd (avgEvents (segs ! k)) (of_nat (sum_list (map ua_events (inSegment k ds)))) \<and>
     avgSavings (foldl addToSegment segs ds ! k) =
       foldl jsplus (avgSavings (segs ! k)) (map ua_savings (inSegment k ds))"
  using assms
proof (induction ds arbitrary: segs)
  case Nil
  then show ?case by (cases "avgEvents (segs ! k)") (simp_all add: inSegment_def)
next
  case (Cons d ds)
  have len: "length (addToSegment segs d) = 4"
    using Cons.prems by (simp add: addToSegment_length)
  note IH = Cons.IH [OF len Cons.prems(2)]
  show ?case
    using IH addToSegment_nth [OF Cons.prems, of d]
    by (auto simp: inSegment_def)
qed

lemma initialSegments_nth:
  "k < 4 \<Longrightarrow> seg_users (initialSegments ! k) = 0 \<and> avgEvents (initialSegments ! k) = Num 0 \<and>
     avgSavings (initialSegments ! k) = Num 0"
  by (auto simp: initialSegments_def less_Suc_eq numeral_Bit0 numeral_eq_Suc nth_Cons')

lemma segments_nth:
  assumes "k < 4"
  shows "segments events ! k =
     averageSegment
       \<lparr>segment = segment (initialSegments ! k),
        seg_users = length (inSegment k (map snd (userActivity events))),
        avgEvents = Num (of_nat (sum_list (map ua_events (inSegment k (map snd (userActivity events)))))),
        avgSavings = foldl jsplus (Num 0) (map ua_savings (inSegment k (map snd (userActivity events))))\<rparr>"
proof -
  have len: "length initialSegments = 4" by (simp add: initialSegments_def)
  let ?acc = "foldl addToSegment initialSegments (map snd (userActivity events))"
  note acc = accumulate_nth [OF len assms, of "map snd (userActivity events)"]
  have "?acc ! k = \<lparr>segment = segment (initialSegments ! k),
        seg_users = length (inSegment k (map snd (userActivity events))),
        avgEvents = Num (of_nat (sum_list (map ua_events (inSegment k (map snd (userActivity events)))))),
        avgSavings = foldl jsplus (Num 0) (map ua_savings (inSegment k (map snd (userActivity events))))\<rparr>"
    using acc initialSegments_nth [OF assms] by (cases "?acc ! k") simp
  then show ?thesis
    using acc assms by (simp add: segments_def)
qed

lemma length_segments: "length (segments events) = 4"
  using accumulate_nth [of initialSegments 0 "map snd (userActivity events)"]
  by (simp add: segments_def initialSegments_def)

lemma segmentIndex_firstMatch: "segmentIndex n = firstMatch SEGMENT_THRESHOLDS n"
  by (simp add: segmentIndex_def firstMatch_def SEGMENT_THRESHOLDS_def)

lemma inSegment_users:
  "inSegment k (map snd (userActivity events)) =
     map (activityOf events)
       (filter (\<lambda>u. firstMatch SEGMENT_THRESHOLDS (eventsOf events u) = k)
          (new_Set (map firebase_uid events)))"
  by (simp add: userActivity_eq inSegment_def filter_map o_def segmentIndex_firstMatch activityOf_def)

lemma set_segment_users:
  "set (filter (\<lambda>u. firstMatch SEGMENT_THRESHOLDS (eventsOf events u) = k)
          (new_Set (map firebase_uid events))) = usersIn events k"
  by (auto simp: usersIn_def set_new_Set)

lemma segmentSavings_empty: "usersIn events k = {} \<Longrightarrow> segmentSavings events k = Num 0"
  using set_segment_users [of events k] by (simp add: segmentSavings_def segmentUsers_def)

lemma length_inSegment:
  "length (inSegment k (map snd (userActivity events))) = card (usersIn events k)"
proof -
  have "distinct (filter (\<lambda>u. firstMatch SEGMENT_THRESHOLDS (eventsOf events u) = k)
          (new_Set (map firebase_uid events)))"
    by (simp add: distinct_new_Set)
  from distinct_card [OF this] show ?thesis
    unfolding set_segment_users by (simp add: inSegment_users)
qed

lemma twenty_value:
  "segments twenty_events =
    [\<lparr>segment = ''Power (50+ events)'', seg_users = 0, avgEvents = Num 0, avgSavings = Num 0\<rparr>,
     \<lparr>segment = ''Active (20-49)'', seg_users = 1, avgEvents = Num 20, avgSavings = Num 0\<rparr>,
     \<lparr>segment = ''Casual (5-19)'', seg_users = 0, avgEvents = Num 0, avgSavings = Num 0\<rparr>,
     \<lparr>segment = ''New (1-4)'', seg_users = 0, avgEvents = Num 0, avgSavings = Num 0\<rparr>]"
  by code_simp

lemma sum_events_inSegment:
  "sum_list (map ua_events (inSegment k (map snd (userActivity events)))) =
     (\<Sum>u \<in> usersIn events k. eventsOf events u)"
proof -
  let ?ks = "filter (\<lambda>u. firstMatch SEGMENT_THRESHOLDS (eventsOf events u) = k)
          (new_Set (map firebase_uid events))"
  have d: "distinct ?ks" by (simp add: distinct_new_Set)
  have "sum_list (map ua_events (inSegment k (map snd (userActivity events)))) =
        sum_list (map (eventsOf events) ?ks)"
    by (simp add: inSegment_users o_def activityOf_def)
  also have "\<dots> = sum (eventsOf events) (set ?ks)"
    by (rule sum_list_distinct_conv_sum_set [OF d])
  finally show ?thesis unfolding set_segment_users .
qed

lemma savings_inSegment:
  "foldl jsplus (Num 0) (map ua_savings (inSegment k (map snd (userActivity events)))) =
     segmentSavings events k"
  by (simp add: inSegment_users segmentSavings_def segmentUsers_def o_def activityOf_def)

lemma segments_nth_users:
  assumes "k < 4"
  shows "segments events ! k =
     averageSegment
       \<lparr>segment = segment (initialSegments ! k),
        seg_users = card (usersIn events k),
        avgEvents = Num (of_nat (\<Sum>u \<in> usersIn events k. eventsOf events u)),
        avgSavings = segmentSavings events k\<rparr>"
  using segments_nth [OF assms, of events]
  unfolding length_inSegment sum_events_inSegment savings_inSegment .

lemma firstMatch_thresholds:
  "firstMatch SEGMENT_THRESHOLDS n < 4 \<and>
   fst (SEGMENT_THRESHOLDS ! firstMatch SEGMENT_THRESHOLDS n) \<le> n \<and>
   (\<forall>j < firstMatch SEGMENT_THRESHOLDS n. n < fst (SEGMENT_THRESHOLDS ! j))"
proof -
  consider "50 \<le> n" | "20 \<le> n" "n < 50" | "5 \<le> n" "n < 20" | "n < 5" by linarith
  then show ?thesis
  proof cases
    case 1
    then show ?thesis by (simp add: firstMatch_def SEGMENT_THRESHOLDS_def)
  next
    case 2
    then show ?thesis by (simp add: firstMatch_def SEGMENT_THRESHOLDS_def)
  next
    case 3
    then show ?thesis by (simp add: firstMatch_def SEGMENT_THRESHOLDS_def less_Suc_eq)
  next
    case 4
    then show ?thesis by (simp add: firstMatch_def SEGMENT_THRESHOLDS_def less_Suc_eq nth_Cons')
  qed
qed

lemma list_of_four: "length xs = 4 \<Longrightarrow> xs = [xs ! 0, xs ! 1, xs ! 2, xs ! 3]"
proof -
  assume "length xs = 4"
  then have "length xs = Suc (Suc (Suc (Suc 0)))" by simp
  then obtain a b c d where "xs = [a, b, c, d]"
    by (auto simp: length_Suc_conv)
  then show ?thesis by simp
qed

lemma segment_names:
  "map segment (segments events) =
     [''Power (50+ events)'', ''Active (20-49)'', ''Casual (5-19)'', ''New (1-4)'']"
proof -
  have n: "segment (segments events ! k) = segment (initialSegments ! k)" if "k < 4" for k
    using segments_nth [OF that, of events] by (simp add: averageSegment_def)
  have "map segment (segments events) =
        [segment (segments events ! 0), segment (segments events ! 1),
         segment (segments events ! 2), segment (segments events ! 3)]"
    by (subst list_of_four [OF length_segments [of events]]) simp
  also have "\<dots> = [segment (initialSegments ! 0), segment (initialSegments ! 1),
         segment (initialSegments ! 2), segment (initialSegments ! 3)]"
    by (simp add: n)
  also have "\<dots> = [''Power (50+ events)'', ''Active (20-49)'', ''Casual (5-19)'', ''New (1-4)'']"
    by (simp add: initialSegments_def)
  finally show ?thesis .
qed

text \<open>
  Claim C5. The segment table always has its four rows, in the configured order. The row
  \<open>k\<close> counts exactly the users whose event count meets threshold \<open>k\<close> first when the
  thresholds 50, 20, 5, 0 are tried from high to low; a threshold is met when it is at
  most the count, so 20 events are Active; every user is in exactly one row. A row
  without users reports 0 users and 0 for both averages; a row with users reports the
  nearest integer (a tie going up) of the mean event count, and \<^verbatim>\<open>Math.round\<close> of the
  sum of its users' savings over their number, which is the nearest integer of the mean
  savings when that sum of doubles is finite.
\<close>

theorem segments_highest_threshold:
  "map segment (segments events) =
     [''Power (50+ events)'', ''Active (20-49)'', ''Casual (5-19)'', ''New (1-4)''] \<and>
   (\<forall>k < 4.
      seg_users (segments events ! k) = card (usersIn events k) \<and>
      (card (usersIn events k) = 0 \<longrightarrow>
         avgEvents (segments events ! k) = Num 0 \<and> avgSavings (segments events ! k) = Num 0) \<and>
      (0 < card (usersIn events k) \<longrightarrow>
         avgEvents (segments events ! k) =
           Num (of_int \<lfloor>of_nat (\<Sum>u \<in> usersIn events k. eventsOf events u)
                           / of_nat (card (usersIn events k)) + 1 / 2 :: rat\<rfloor>) \<and>
         avgSavings (segments events ! k) =
           Math_round (jsquot (segmentSavings events k) (of_nat (card (usersIn events k)))) \<and>
         (\<forall>s. segmentSavings events k = Num s \<longrightarrow>
            avgSavings (segments events ! k) =
              Num (of_int \<lfloor>s / of_nat (card (usersIn events k)) + 1 / 2\<rfloor>)))) \<and>
   (\<forall>u \<in> firebase_uid ` set events. \<exists>!k. k < 4 \<and> u \<in> usersIn events k) \<and>
   (\<forall>n. firstMatch SEGMENT_THRESHOLDS n < 4 \<and>
        fst (SEGMENT_THRESHOLDS ! firstMatch SEGMENT_THRESHOLDS n) \<le> n \<and>
        (\<forall>j < firstMatch SEGMENT_THRESHOLDS n. n < fst (SEGMENT_THRESHOLDS ! j))) \<and>
   snd (SEGMENT_THRESHOLDS ! firstMatch SEGMENT_THRESHOLDS 20) = ''Active''"
proof (intro conjI)
  show "map segment (segments events) =
     [''Power (50+ events)'', ''Active (20-49)'', ''Casual (5-19)'', ''New (1-4)'']"
    by (rule segment_names)
  show "\<forall>k < 4.
      seg_users (segments events ! k) = card (usersIn events k) \<and>
      (card (usersIn events k) = 0 \<longrightarrow>
         avgEvents (segments events ! k) = Num 0 \<and> avgSavings (segments events ! k) = Num 0) \<and>
      (0 < card (usersIn events k) \<longrightarrow>
         avgEvents (segments events ! k) =
           Num (of_int \<lfloor>of_nat (\<Sum>u \<in> usersIn events k. eventsOf events u)
                           / of_nat (card (usersIn events k)) + 1 / 2 :: rat\<rfloor>) \<and>
         avgSavings (segments events ! k) =
           Math_round (jsquot (segmentSavings events k) (of_nat (card (usersIn events k)))) \<and>
         (\<forall>s. segmentSavings events k = Num s \<longrightarrow>
            avgSavings (segments events ! k) =
              Num (of_int \<lfloor>s / of_nat (card (usersIn events k)) + 1 / 2\<rfloor>)))"
  proof (intro allI impI)
    fix k :: nat assume k: "k < 4"
    have fin: "finite (usersIn events k)" by (simp add: usersIn_def)
    show "seg_users (segments events ! k) = card (usersIn events k) \<and>
      (card (usersIn events k) = 0 \<longrightarrow>
         avgEvents (segments events ! k) = Num 0 \<and> avgSavings (segments events ! k) = Num 0) \<and>
      (0 < card (usersIn events k) \<longrightarrow>
         avgEvents (segments events ! k) =
           Num (of_int \<lfloor>of_nat (\<Sum>u \<in> usersIn events k. eventsOf events u)
                           / of_nat (card (usersIn events k)) + 1 / 2 :: rat\<rfloor>) \<and>
         avgSavings (segments events ! k) =
           Math_round (jsquot (segmentSavings events k) (of_nat (card (usersIn events k)))) \<and>
         (\<forall>s. segmentSavings events k = Num s \<longrightarrow>
            avgSavings (segments events ! k) =
              Num (of_int \<lfloor>s / of_nat (card (usersIn events k)) + 1 / 2\<rfloor>)))"
    proof (cases "card (usersIn events k) = 0")
      case True
      then have "usersIn events k = {}" using fin by simp
      then show ?thesis
        unfolding segments_nth_users [OF k] by (simp add: averageSegment_def segmentSavings_empty)
    next
      case False
      then show ?thesis
        unfolding segments_nth_users [OF k] by (auto simp: averageSegment_def jsdiv_def)
    qed
  qed
  show "\<forall>u \<in> firebase_uid ` set events. \<exists>!k. k < 4 \<and> u \<in> usersIn events k"
  proof
    fix u assume u: "u \<in> firebase_uid ` set events"
    show "\<exists>!k. k < 4 \<and> u \<in> usersIn events k"
    proof (rule ex1I [of _ "firstMatch SEGMENT_THRESHOLDS (eventsOf events u)"])
      show "firstMatch SEGMENT_THRESHOLDS (eventsOf events u) < 4 \<and>
            u \<in> usersIn events (firstMatch SEGMENT_THRESHOLDS (eventsOf events u))"
        using u firstMatch_thresholds [of "eventsOf events u"] by (simp add: usersIn_def)
    next
      fix k assume "k < 4 \<and> u \<in> usersIn events k"
      then show "k = firstMatch SEGMENT_THRESHOLDS (eventsOf events u)"
        by (simp add: usersIn_def)
    qed
  qed
  show "\<forall>n. firstMatch SEGMENT_THRESHOLDS n < 4 \<and>
        fst (SEGMENT_THRESHOLDS ! firstMatch SEGMENT_THRESHOLDS n) \<le> n \<and>
        (\<forall>j < firstMatch SEGMENT_THRESHOLDS n. n < fst (SEGMENT_THRESHOLDS ! j))"
    using firstMatch_thresholds by blast
  show "snd (SEGMENT_THRESHOLDS ! firstMatch SEGMENT_THRESHOLDS 20) = ''Active''"
    by (simp add: firstMatch_def SEGMENT_THRESHOLDS_def)
qed

theorem segments_highest_threshold_witness:
  "(0::nat) < 4 \<and> (1::nat) < 4 \<and>
   card (usersIn twenty_events 0) = 0 \<and> avgEvents (segments twenty_events ! 0) = Num 0 \<and>
   0 < card (usersIn twenty_events 1) \<and>
   Some ''A'' \<in> firebase_uid ` set twenty_events \<and>
   (\<exists>!k. k < 4 \<and> Some ''A'' \<in> usersIn twenty_events k) \<and>
   segment (segments twenty_events ! 1) = ''Active (20-49)''"
proof -
  note t = segments_highest_threshold [of twenty_events]
  have c0: "card (usersIn twenty_events 0) = 0"
    using t [THEN conjunct2, THEN conjunct1, rule_format, of 0] by (simp add: twenty_value)
  have c1: "card (usersIn twenty_events 1) = 1"
    using t [THEN conjunct2, THEN conjunct1, rule_format, of 1] by (simp add: twenty_value)
  have a0: "avgEvents (segments twenty_events ! 0) = Num 0"
    using t [THEN conjunct2, THEN conjunct1, rule_format, of 0] c0 by simp
  have mem: "Some ''A'' \<in> firebase_uid ` set twenty_events"
    by (simp add: twenty_events_def ev_def)
  have uniq: "\<exists>!k. k < 4 \<and> Some ''A'' \<in> usersIn twenty_events k"
    using t [THEN conjunct2, THEN conjunct2, THEN conjunct1] mem by (rule bspec)
  show ?thesis
    using c0 c1 a0 mem uniq by (simp add: twenty_value)
qed

section \<open>Latency rows\<close>

lemma map_filter_snoc:
  "List.map_filter f (xs @ [x]) =
     List.map_filter f xs @ (case f x of None \<Rightarrow> [] | Some y \<Rightarrow> [y])"
  by (simp add: List.map_filter_def split: option.splits)

lemma timesOf_snoc:
  "timesOf ty (ms @ [m]) =
     timesOf ty ms @ (case recorded m of None \<Rightarrow> [] | Some (t, d) \<Rightarrow> if t = ty then [d] else [])"
  by (simp add: timesOf_def map_filter_snoc split: option.splits)

lemma typesOf_snoc:
  "typesOf (ms @ [m]) =
     (case recorded m of None \<Rightarrow> typesOf ms | Some (t, d) \<Rightarrow> set_add t (typesOf ms))"
  by (simp add: typesOf_def map_filter_snoc new_Set_snoc split: option.splits)

lemma distinct_typesOf: "distinct (typesOf messages)"
  by (simp add: typesOf_def distinct_new_Set)

lemma typesOf_iff: "ty \<in> set (typesOf messages) \<longleftrightarrow> timesOf ty messages \<noteq> []"
  by (force simp: typesOf_def timesOf_def set_new_Set filter_empty_conv)

lemma latencyStep_recorded:
  "latencyStep m x =
     (case recorded x of
        None \<Rightarrow> m
      | Some (ty, d) \<Rightarrow>
          AList.update ty ((case map_of m ty of None \<Rightarrow> [] | Some tms \<Rightarrow> tms) @ [d]) m)"
  by (simp add: latencyStep_def recorded_def split: option.splits)

lemma latencyMap_eq:
  "latencyMap messages = map (\<lambda>ty. (ty, timesOf ty messages)) (typesOf messages)"
proof (induction messages rule: rev_induct)
  case Nil
  then show ?case
    by (simp add: latencyMap_def typesOf_def List.map_filter_def new_Set_Nil)
next
  case (snoc m ms)
  have step: "latencyMap (ms @ [m]) = latencyStep (latencyMap ms) m"
    by (simp add: latencyMap_def)
  show ?case
  proof (cases "recorded m")
    case None
    then show ?thesis
      unfolding step latencyStep_recorded snoc.IH
      by (simp add: timesOf_snoc typesOf_snoc)
  next
    case (Some p)
    obtain ty d where p: "p = (ty, d)" by (cases p)
    have old: "(case map_of (map (\<lambda>ty. (ty, timesOf ty ms)) (typesOf ms)) ty of
                  None \<Rightarrow> [] | Some tms \<Rightarrow> tms) = timesOf ty ms"
      using typesOf_iff [of ty ms] by (simp add: map_of_map_keys)
    have upd: "(\<lambda>k. timesOf k ms)(ty := timesOf ty ms @ [d]) = (\<lambda>k. timesOf k (ms @ [m]))"
      by (rule ext) (simp add: timesOf_snoc Some p)
    have "latencyMap (ms @ [m]) =
          AList.update ty (timesOf ty ms @ [d]) (map (\<lambda>ty. (ty, timesOf ty ms)) (typesOf ms))"
      unfolding step latencyStep_recorded snoc.IH by (simp add: Some p old)
    also have "\<dots> = map (\<lambda>k. (k, ((\<lambda>k. timesOf k ms)(ty := timesOf ty ms @ [d])) k))
                       (set_add ty (typesOf ms))"
      by (rule update_map_keys) (rule distinct_typesOf)
    finally show ?thesis
      unfolding upd by (simp add: typesOf_snoc Some p)
  qed
qed

lemma latencies_eq:
  "latencies messages =
     sort_key (\<lambda>r. - int (lt_count r))
       (map (\<lambda>ty. latencyRow (ty, timesOf ty messages)) (typesOf messages))"
  by (simp add: latencies_def latencyMap_eq o_def)

lemma latencyRow_nonempty:
  assumes "tms \<noteq> []"
  shows "lt_count (latencyRow (ty, tms)) = length tms \<and>
         length tms div 2 < length tms \<and>
         19 * length tms div 20 < length tms \<and>
         lt_p50 (latencyRow (ty, tms)) = sort tms ! (length tms div 2) \<and>
         lt_p95 (latencyRow (ty, tms)) = sort tms ! (19 * length tms div 20) \<and>
         lt_avg (latencyRow (ty, tms)) =
           Num (of_int \<lfloor>of_int (sum_list tms) / of_nat (length tms) + 1 / 2 :: rat\<rfloor>)"
proof -
  let ?n = "length tms"
  have n: "0 < ?n" using assms by simp
  have i50: "int ?n div 2 = int (?n div 2)" by simp
  have lt50: "?n div 2 < ?n" using n by simp
  have lt95: "19 * ?n div 20 < ?n" using n by arith
  have a95: "19 * int ?n div 20 = int (19 * ?n div 20)" by (simp add: zdiv_int)
  have b95: "int ?n - 1 = int (?n - 1)" using n by (cases tms) simp_all
  have "19 * ?n div 20 \<le> ?n - 1" using lt95 by simp
  then have i95: "min (19 * int ?n div 20) (int ?n - 1) = int (19 * ?n div 20)"
    unfolding a95 b95 by simp
  have p50: "at_or_0 (sort tms) (int ?n div 2) = sort tms ! (?n div 2)"
    unfolding i50 using lt50 by (simp add: at_or_0_def)
  have p95: "at_or_0 (sort tms) (min (19 * int ?n div 20) (int ?n - 1)) =
             sort tms ! (19 * ?n div 20)"
    unfolding i95 using lt95 by (simp add: at_or_0_def)
  have avg: "Math_round (jsdiv (of_int (sum_list tms)) (of_nat ?n)) =
             Num (of_int \<lfloor>of_int (sum_list tms) / of_nat ?n + 1 / 2 :: rat\<rfloor>)"
    using n by (simp add: jsdiv_def)
  show ?thesis
    using lt50 lt95 p50 p95 avg by (simp add: latencyRow_def Let_def)
qed

lemma two_messages_value:
  "latencies two_messages =
     [\<lparr>lt_type = ''chat'', lt_count = 2, lt_avg = Num 2, lt_p50 = 2, lt_p95 = 2\<rparr>]"
  by code_simp

lemma five_messages_value:
  "latencies five_messages =
     [\<lparr>lt_type = ''chat reply'', lt_count = 3, lt_avg = Num 30, lt_p50 = 30, lt_p95 = 50\<rparr>,
      \<lparr>lt_type = ''search'', lt_count = 1, lt_avg = Num 7, lt_p50 = 7, lt_p95 = 7\<rparr>]"
  "timesOf ''chat_reply'' five_messages = [30, 10, 50]"
  "typesOf five_messages = [''chat_reply'', ''search'']"
  by code_simp+

text \<open>
  Claim C6, as the code has it. There is one latency row for every response type that
  has a recorded time, and no other row; so no input, the empty one included, produces a
  row of zeros, and no messages give no rows. The row of a type is computed from all the
  recorded times of that type, \<open>n \<ge> 1\<close> of them: it reports the count \<open>n\<close>, as p50 the
  element at index \<open>floor (n / 2)\<close> of the ascending sort, as p95 the element at index
  \<open>floor (0.95 n)\<close>, which is below \<open>n\<close> so that the cap at \<open>n - 1\<close> never applies, and as
  average the arithmetic mean rounded to the nearest integer, a tie going up. The rows
  come with the larger counts first.
\<close>

theorem latencies_rows:
  "latencies messages =
     sort_key (\<lambda>r. - int (lt_count r))
       (map (\<lambda>ty. latencyRow (ty, timesOf ty messages)) (typesOf messages)) \<and>
   distinct (typesOf messages) \<and>
   (\<forall>ty. ty \<in> set (typesOf messages) \<longleftrightarrow> timesOf ty messages \<noteq> []) \<and>
   length (latencies messages) = length (typesOf messages) \<and>
   sorted (map (\<lambda>r. - int (lt_count r)) (latencies messages)) \<and>
   (\<forall>ty. timesOf ty messages \<noteq> [] \<longrightarrow>
      latencyRow (ty, timesOf ty messages) \<in> set (latencies messages) \<and>
      lt_type (latencyRow (ty, timesOf ty messages)) =
        map (\<lambda>c. if c = CHR ''_'' then CHR '' '' else c) ty \<and>
      lt_count (latencyRow (ty, timesOf ty messages)) = length (timesOf ty messages) \<and>
      length (timesOf ty messages) div 2 < length (timesOf ty messages) \<and>
      19 * length (timesOf ty messages) div 20 < length (timesOf ty messages) \<and>
      lt_p50 (latencyRow (ty, timesOf ty messages)) =
        sort (timesOf ty messages) ! (length (timesOf ty messages) div 2) \<and>
      lt_p95 (latencyRow (ty, timesOf ty messages)) =
        sort (timesOf ty messages) ! (19 * length (timesOf ty messages) div 20) \<and>
      lt_avg (latencyRow (ty, timesOf ty messages)) =
        Num (of_int \<lfloor>of_int (sum_list (timesOf ty messages))
                        / of_nat (length (timesOf ty messages)) + 1 / 2 :: rat\<rfloor>)) \<and>
   latencies [] = []"
proof (intro conjI allI impI)
  show "latencies messages =
     sort_key (\<lambda>r. - int (lt_count r))
       (map (\<lambda>ty. latencyRow (ty, timesOf ty messages)) (typesOf messages))"
    by (rule latencies_eq)
  show "distinct (typesOf messages)" by (rule distinct_typesOf)
  show "ty \<in> set (typesOf messages) \<longleftrightarrow> timesOf ty messages \<noteq> []" for ty
    by (rule typesOf_iff)
  show "length (latencies messages) = length (typesOf messages)"
    by (simp add: latencies_eq)
  show "sorted (map (\<lambda>r. - int (lt_count r)) (latencies messages))"
    by (simp add: latencies_def)
  show "latencies [] = []" by (simp add: latencies_def latencyMap_def)
next
  fix ty assume t: "timesOf ty messages \<noteq> []"
  note row = latencyRow_nonempty [OF t, of ty]
  from t have "ty \<in> set (typesOf messages)" by (simp add: typesOf_iff)
  then show "latencyRow (ty, timesOf ty messages) \<in> set (latencies messages)"
    by (simp add: latencies_eq)
  show "lt_type (latencyRow (ty, timesOf ty messages)) =
        map (\<lambda>c. if c = CHR ''_'' then CHR '' '' else c) ty"
    by (simp add: latencyRow_def Let_def)
  show "lt_count (latencyRow (ty, timesOf ty messages)) = length (timesOf ty messages)"
    using row by (elim conjE)
  show "length (timesOf ty messages) div 2 < length (timesOf ty messages)"
    using row by (elim conjE)
  show "19 * length (timesOf ty messages) div 20 < length (timesOf ty messages)"
    using row by (elim conjE)
  show "lt_p50 (latencyRow (ty, timesOf ty messages)) =
        sort (timesOf ty messages) ! (length (timesOf ty messages) div 2)"
    using row by (elim conjE)
  show "lt_p95 (latencyRow (ty, timesOf ty messages)) =
        sort (timesOf ty messages) ! (19 * length (timesOf ty messages) div 20)"
    using row by (elim conjE)
  show "lt_avg (latencyRow (ty, timesOf ty messages)) =
        Num (of_int \<lfloor>of_int (sum_list (timesOf ty messages))
                        / of_nat (length (timesOf ty messages)) + 1 / 2 :: rat\<rfloor>)"
    using row by (elim conjE)
qed

theorem latencies_rows_witness:
  "timesOf ''chat_reply'' five_messages = [30, 10, 50] \<and>
   latencyRow (''chat_reply'', [30, 10, 50]) \<in> set (latencies five_messages) \<and>
   lt_type (latencyRow (''chat_reply'', [30, 10, 50])) = ''chat reply'' \<and>
   lt_count (latencyRow (''chat_reply'', [30, 10, 50])) = 3 \<and>
   lt_p50 (latencyRow (''chat_reply'', [30, 10, 50])) = 30 \<and>
   lt_p95 (latencyRow (''chat_reply'', [30, 10, 50])) = 50 \<and>
   lt_avg (latencyRow (''chat_reply'', [30, 10, 50])) = Num 30 \<and>
   length (latencies five_messages) = 2"
proof -
  note t = latencies_rows [of five_messages]
  have times: "timesOf ''chat_reply'' five_messages = [30, 10, 50]"
    by (rule five_messages_value(2))
  then have ne: "timesOf ''chat_reply'' five_messages \<noteq> []" by simp
  from t have "\<forall>ty. timesOf ty five_messages \<noteq> [] \<longrightarrow>
      latencyRow (ty, timesOf ty five_messages) \<in> set (latencies five_messages) \<and>
      lt_type (latencyRow (ty, timesOf ty five_messages)) =
        map (\<lambda>c. if c = CHR ''_'' then CHR '' '' else c) ty \<and>
      lt_count (latencyRow (ty, timesOf ty five_messages)) = length (timesOf ty five_messages) \<and>
      length (timesOf ty five_messages) div 2 < length (timesOf ty five_messages) \<and>
      19 * length (timesOf ty five_messages) div 20 < length (timesOf ty five_messages) \<and>
      lt_p50 (latencyRow (ty, timesOf ty five_messages)) =
        sort (timesOf ty five_messages) ! (length (timesOf ty five_messages) div 2) \<and>
      lt_p95 (latencyRow (ty, timesOf ty five_messages)) =
        sort (timesOf ty five_messages) ! (19 * length (timesOf ty five_messages) div 20) \<and>
      lt_avg (latencyRow (ty, timesOf ty five_messages)) =
        Num (of_int \<lfloor>of_int (sum_list (timesOf ty five_messages))
                        / of_nat (length (timesOf ty five_messages)) + 1 / 2 :: rat\<rfloor>)"
    by (elim conjE)
  from this [rule_format, OF ne]
  have row: "latencyRow (''chat_reply'', [30, 10, 50]) \<in> set (latencies five_messages) \<and>
      lt_type (latencyRow (''chat_reply'', [30, 10, 50])) = ''chat reply'' \<and>
      lt_count (latencyRow (''chat_reply'', [30, 10, 50])) = 3 \<and>
      lt_p50 (latencyRow (''chat_reply'', [30, 10, 50])) = sort [30, 10, 50] ! 1 \<and>
      lt_p95 (latencyRow (''chat_reply'', [30, 10, 50])) = sort [30, 10, 50] ! 2 \<and>
      lt_avg (latencyRow (''chat_reply'', [30, 10, 50])) = Num (of_int \<lfloor>90 / 3 + 1 / 2 :: rat\<rfloor>)"
    unfolding times by simp
  have fl: "\<lfloor>90 / 3 + 1 / 2 :: rat\<rfloor> = 30" by (simp add: floor_unique)
  from t have "length (latencies five_messages) = length (typesOf five_messages)"
    by (elim conjE)
  then have len: "length (latencies five_messages) = 2"
    by (simp add: five_messages_value(3))
  have s1: "sort [30, 10, 50 :: int] ! 1 = 30" and s2: "sort [30, 10, 50 :: int] ! 2 = 50"
    by simp_all
  show ?thesis
    using times row len unfolding fl s1 s2 by simp
qed

theorem percentiles_mean_counterexample:
  "latencies two_messages =
     [\<lparr>lt_type = ''chat'', lt_count = 2, lt_avg = Num 2, lt_p50 = 2, lt_p95 = 2\<rparr>] \<and>
   (1 + 2) / 2 \<noteq> (2 :: rat) \<and>
   latencies [] = []"
  by (simp add: two_messages_value) (simp add: latencies_def latencyMap_def)

section \<open>Cohort retention\<close>

lemma concat_map_option:
  "concat (map (\<lambda>x. case f x of None \<Rightarrow> [] | Some r \<Rightarrow> [r]) xs) =
     map (\<lambda>x. the (f x)) (filter (\<lambda>x. f x \<noteq> None) xs)"
  by (induction xs) auto

lemma cohortRow_None:
  "cohortRow newDate now events a \<noteq> None \<longleftrightarrow> cohortUsers newDate now events a \<noteq> []"
  by (simp add: cohortRow_def)

lemma cohorts_eq:
  "cohorts newDate now events =
     map (\<lambda>a. the (cohortRow newDate now events a)) (cohortWeeks newDate now events)"
  unfolding cohorts_def cohortWeeks_def concat_map_option cohortRow_None ..

lemma cohortWeeks_sorted: "sorted_wrt (>) (cohortWeeks newDate now events)"
  unfolding cohortWeeks_def by (rule sorted_wrt_filter) simp

lemma cohortWeeks_set:
  "set (cohortWeeks newDate now events) =
     {a. 1 \<le> a \<and> a \<le> 4 \<and> cohortUsers newDate now events a \<noteq> []}"
proof -
  have range: "1 \<le> a \<and> a \<le> 4 \<longleftrightarrow> a = 4 \<or> a = 3 \<or> a = 2 \<or> a = 1" for a :: int
    by arith
  have "set (cohortWeeks newDate now events) =
          {a. (a = 4 \<or> a = 3 \<or> a = 2 \<or> a = 1) \<and> cohortUsers newDate now events a \<noteq> []}"
    unfolding cohortWeeks_def set_filter by (rule Collect_cong) simp
  also have "\<dots> = {a. 1 \<le> a \<and> a \<le> 4 \<and> cohortUsers newDate now events a \<noteq> []}"
  proof (rule Collect_cong)
    fix a :: int
    show "((a = 4 \<or> a = 3 \<or> a = 2 \<or> a = 1) \<and> cohortUsers newDate now events a \<noteq> []) =
          (1 \<le> a \<and> a \<le> 4 \<and> cohortUsers newDate now events a \<noteq> [])"
      using range [of a] by blast
  qed
  finally show ?thesis .
qed

lemma checkRetention_past_now:
  assumes "now \<le> cohortStart now a + k * 7 * msPerDay"
  shows "checkRetention newDate now events a k = 0"
proof -
  have "a \<le> k" using assms by (simp add: cohortStart_def subDays_def msPerDay_def)
  then consider "a - k < 0" | "a = k" by linarith
  then show ?thesis
  proof cases
    case 1
    then show ?thesis by (simp add: checkRetention_def)
  next
    case 2
    have "filter (\<lambda>e. in_window (newDate (received_at e)) now now \<and>
                      firebase_uid e \<in> set (cohortUsers newDate now events k)) events = []"
      by (auto simp: filter_empty_conv in_window_def split: option.splits)
    then show ?thesis
      using 2 by (simp add: checkRetention_def subDays_def new_Set_Nil)
  qed
qed

lemma floor_half: "\<lfloor>1 / 2 :: rat\<rfloor> = 0"
  by (rule floor_unique) simp_all

lemma retentionPct_past_now:
  assumes "now \<le> cohortStart now a + k * 7 * msPerDay"
  shows "retentionPct newDate now events a k = Num 0"
  by (simp add: retentionPct_def checkRetention_past_now [OF assms] jsdiv_def Let_def floor_half)

lemma retentionPct_finite: "\<exists>n::int. retentionPct newDate now events a k = Num (of_int n)"
  by (auto simp: retentionPct_def jsdiv_def Let_def intro: exI [of _ 0])

lemma cohort_value:
  "cohorts parseISO cohort_now cohort_events =
     [\<lparr>cohort = ''Mar 15'', rd_users = 2, w1 = Num 50, w2 = Num 0, w4 = Num 0\<rparr>,
      \<lparr>cohort = ''Mar 22'', rd_users = 1, w1 = Num 0, w2 = Num 0, w4 = Num 0\<rparr>]"
  by code_simp

lemma cohort_weeks_value: "cohortWeeks parseISO cohort_now cohort_events = [2, 1]"
  by code_simp

lemma cohortStart_ascending:
  "sorted_wrt (<) (map (cohortStart now) (cohortWeeks newDate now events))"
proof -
  have "sorted_wrt (\<lambda>a b. cohortStart now a < cohortStart now b) (cohortWeeks newDate now events)"
    by (rule sorted_wrt_mono_rel [OF _ cohortWeeks_sorted])
       (simp add: cohortStart_def subDays_def msPerDay_def)
  then show ?thesis by (simp add: sorted_wrt_map)
qed

lemma cohortRow_Some:
  assumes "cohortUsers newDate now events a \<noteq> []"
  shows "cohortRow newDate now events a =
     Some \<lparr>cohort = format_MMM_dd (cohortStart now a),
           rd_users = length (cohortUsers newDate now events a),
           w1 = retentionPct newDate now events a 1,
           w2 = retentionPct newDate now events a 2,
           w4 = retentionPct newDate now events a 4\<rparr>"
  using assms by (simp add: cohortRow_def)

text \<open>
  Claim C4. The cohort rows are those of the week windows, among the four trailing ones,
  that hold a user, in the order of the loop: the cohort starts ascend. A window without
  a user has no row, and every row has a user. Each row carries its three checkpoints as
  finite integers; a checkpoint whose window starts at or after \<open>now\<close> is 0.
\<close>

theorem cohorts_chronological:
  "cohorts newDate now events =
     map (\<lambda>a. the (cohortRow newDate now events a)) (cohortWeeks newDate now events) \<and>
   sorted_wrt (<) (map (cohortStart now) (cohortWeeks newDate now events)) \<and>
   set (cohortWeeks newDate now events) =
     {a. 1 \<le> a \<and> a \<le> 4 \<and> cohortUsers newDate now events a \<noteq> []} \<and>
   (\<forall>a \<in> set (cohortWeeks newDate now events).
      \<exists>row. cohortRow newDate now events a = Some row \<and>
        cohort row = format_MMM_dd (cohortStart now a) \<and>
        rd_users row = length (cohortUsers newDate now events a) \<and> 0 < rd_users row \<and>
        (\<exists>n1 n2 n4 :: int. w1 row = Num (of_int n1) \<and> w2 row = Num (of_int n2) \<and>
                            w4 row = Num (of_int n4)) \<and>
        (now \<le> cohortStart now a + 1 * 7 * msPerDay \<longrightarrow> w1 row = Num 0) \<and>
        (now \<le> cohortStart now a + 2 * 7 * msPerDay \<longrightarrow> w2 row = Num 0) \<and>
        (now \<le> cohortStart now a + 4 * 7 * msPerDay \<longrightarrow> w4 row = Num 0))"
proof (intro conjI ballI)
  show "cohorts newDate now events =
     map (\<lambda>a. the (cohortRow newDate now events a)) (cohortWeeks newDate now events)"
    by (rule cohorts_eq)
  show "sorted_wrt (<) (map (cohortStart now) (cohortWeeks newDate now events))"
    by (rule cohortStart_ascending)
  show "set (cohortWeeks newDate now events) =
     {a. 1 \<le> a \<and> a \<le> 4 \<and> cohortUsers newDate now events a \<noteq> []}"
    by (rule cohortWeeks_set)
next
  fix a assume "a \<in> set (cohortWeeks newDate now events)"
  then have ne: "cohortUsers newDate now events a \<noteq> []"
    by (simp add: cohortWeeks_set)
  let ?row = "\<lparr>cohort = format_MMM_dd (cohortStart now a),
           rd_users = length (cohortUsers newDate now events a),
           w1 = retentionPct newDate now events a 1,
           w2 = retentionPct newDate now events a 2,
           w4 = retentionPct newDate now events a 4\<rparr>"
  obtain n1 n2 n4 :: int where n:
    "retentionPct newDate now events a 1 = Num (of_int n1)"
    "retentionPct newDate now events a 2 = Num (of_int n2)"
    "retentionPct newDate now events a 4 = Num (of_int n4)"
    using retentionPct_finite by metis
  have fin: "\<exists>n1 n2 n4 :: int. w1 ?row = Num (of_int n1) \<and> w2 ?row = Num (of_int n2) \<and>
                            w4 ?row = Num (of_int n4)"
    using n by auto
  have "cohortRow newDate now events a = Some ?row \<and>
        cohort ?row = format_MMM_dd (cohortStart now a) \<and>
        rd_users ?row = length (cohortUsers newDate now events a) \<and> 0 < rd_users ?row \<and>
        (\<exists>n1 n2 n4 :: int. w1 ?row = Num (of_int n1) \<and> w2 ?row = Num (of_int n2) \<and>
                            w4 ?row = Num (of_int n4)) \<and>
        (now \<le> cohortStart now a + 1 * 7 * msPerDay \<longrightarrow> w1 ?row = Num 0) \<and>
        (now \<le> cohortStart now a + 2 * 7 * msPerDay \<longrightarrow> w2 ?row = Num 0) \<and>
        (now \<le> cohortStart now a + 4 * 7 * msPerDay \<longrightarrow> w4 ?row = Num 0)"
    using cohortRow_Some [OF ne] ne fin
      retentionPct_past_now [of now a 1 newDate events]
      retentionPct_past_now [of now a 2 newDate events]
      retentionPct_past_now [of now a 4 newDate events]
    by simp
  then show "\<exists>row. cohortRow newDate now events a = Some row \<and>
        cohort row = format_MMM_dd (cohortStart now a) \<and>
        rd_users row = length (cohortUsers newDate now events a) \<and> 0 < rd_users row \<and>
        (\<exists>n1 n2 n4 :: int. w1 row = Num (of_int n1) \<and> w2 row = Num (of_int n2) \<and>
                            w4 row = Num (of_int n4)) \<and>
        (now \<le> cohortStart now a + 1 * 7 * msPerDay \<longrightarrow> w1 row = Num 0) \<and>
        (now \<le> cohortStart now a + 2 * 7 * msPerDay \<longrightarrow> w2 row = Num 0) \<and>
        (now \<le> cohortStart now a + 4 * 7 * msPerDay \<longrightarrow> w4 row = Num 0)"
    by (rule exI)
qed

theorem cohorts_chronological_witness:
  "(2::int) \<in> set (cohortWeeks parseISO cohort_now cohort_events) \<and>
   cohort_now \<le> cohortStart cohort_now 2 + 4 * 7 * msPerDay \<and>
   \<not> cohort_now \<le> cohortStart cohort_now 2 + 1 * 7 * msPerDay \<and>
   (\<exists>row. cohortRow parseISO cohort_now cohort_events 2 = Some row \<and>
          row = cohorts parseISO cohort_now cohort_events ! 0 \<and>
          cohort row = ''Mar 15'' \<and> rd_users row = 2 \<and> w1 row = Num 50 \<and> w4 row = Num 0)"
proof -
  have mem: "(2::int) \<in> set (cohortWeeks parseISO cohort_now cohort_events)"
    by (simp add: cohort_weeks_value)
  have h4: "cohort_now \<le> cohortStart cohort_now 2 + 4 * 7 * msPerDay"
    by (simp add: cohortStart_def subDays_def msPerDay_def)
  have h1: "\<not> cohort_now \<le> cohortStart cohort_now 2 + 1 * 7 * msPerDay"
    by (simp add: cohortStart_def subDays_def msPerDay_def)
  note t = cohorts_chronological [of parseISO cohort_now cohort_events]
  from t [THEN conjunct2, THEN conjunct2, THEN conjunct2, rule_format, OF mem]
  obtain row where row: "cohortRow parseISO cohort_now cohort_events 2 = Some row"
    and w4: "cohort_now \<le> cohortStart cohort_now 2 + 4 * 7 * msPerDay \<longrightarrow> w4 row = Num 0"
    by blast
  have first: "cohorts parseISO cohort_now cohort_events ! 0 = row"
    using t [THEN conjunct1] row by (simp add: cohort_weeks_value)
  have "cohort row = ''Mar 15'' \<and> rd_users row = 2 \<and> w1 row = Num 50"
    using first by (auto simp: cohort_value)
  moreover have "w4 row = Num 0" using w4 h4 by blast
  ultimately show ?thesis using mem h4 h1 row first by blast
qed

section \<open>The calendar\<close>





















section \<open>The start of the week\<close>




section \<open>Labels\<close>






section \<open>Weekly buckets\<close>








section \<open>Ratios and percentages\<close>











































end
